theory Spec2Isabelle
  imports Complex_Main "HOL-Library.Sublist" "HOL-Library.Monad_Syntax" "HOL-Library.AList"
begin

section \<open>Text and characters\<close>

text \<open>
  The extraction scripts work on JavaScript strings. A string is modelled as a list of
  characters (\<^typ>\<open>string\<close>); indexing \<open>text[i]\<close> with a moving index \<open>i\<close> becomes
  recursion on the suffix of the text that starts at \<open>i\<close>. The characters the scripts
  name are written by their codes where Isabelle has no literal for them:
  \<open>CHR 0x22\<close> is the double quote, \<open>CHR 0x27\<close> the single quote, \<open>CHR 0x5C\<close> the backslash,
  \<open>CHR 0x60\<close> the backtick and \<open>CHR 0x0A\<close> the line feed.
\<close>

section \<open>extract-fu.ts: stripJsonComments\<close>

text \<open>
  The inner loop \<open>while (i < text.length && text[i] !== "\n") i++\<close> of a line comment:
  it returns the suffix at which the outer loop goes on (the line feed is kept).
\<close>

fun skipLine :: "string \<Rightarrow> string" where
  "skipLine [] = []"
| "skipLine (c # cs) = (if c = CHR 0x0A then c # cs else skipLine cs)"

text \<open>
  The block comment, entered after \<open>i += 2\<close> has stepped over the opening \<open>/*\<close>:
  \<open>while (i + 1 < text.length && !(text[i] === "*" && text[i + 1] === "/")) i++; i += 2\<close>.
  With fewer than two characters left the loop stops and \<open>i += 2\<close> moves past the end
  of the text, so nothing is left for the outer loop.
\<close>

fun skipBlock :: "string \<Rightarrow> string" where
  "skipBlock (a # b # cs) = (if a = CHR ''*'' \<and> b = CHR ''/'' then cs else skipBlock (b # cs))"
| "skipBlock cs = []"

lemma length_skipLine: "length (skipLine cs) \<le> length cs"
  by (induction cs) auto

lemma length_skipBlock: "length (skipBlock cs) \<le> length cs"
  by (induction cs rule: skipBlock.induct) auto

text \<open>
  The outer \<open>while (i < text.length)\<close> loop. Its state is \<open>inString\<close>, \<open>stringChar\<close>
  (a JavaScript string: empty at the start, later the one-character quote that opened
  the current literal) and the rest of the text from \<open>i\<close>; \<open>result += ...\<close> becomes
  the characters put in front of the result of the remaining iterations.
\<close>

function stripLoop :: "bool \<Rightarrow> string \<Rightarrow> string \<Rightarrow> string" where
  "stripLoop inString stringChar [] = []"
| "stripLoop inString stringChar (c # rest) =
     (if inString then
        (if c = CHR 0x5C \<and> rest \<noteq> [] then c # hd rest # stripLoop True stringChar (tl rest)
         else c # stripLoop ([c] \<noteq> stringChar) stringChar rest)
      else if c = CHR 0x22 \<or> c = CHR 0x27 then c # stripLoop True [c] rest
      else if c = CHR ''/'' \<and> rest \<noteq> [] \<and> hd rest = CHR ''/'' then
        stripLoop False stringChar (skipLine (c # rest))
      else if c = CHR ''/'' \<and> rest \<noteq> [] \<and> hd rest = CHR ''*'' then
        stripLoop False stringChar (skipBlock (tl rest))
      else c # stripLoop False stringChar rest)"
  by pat_completeness auto
termination
proof (relation "measure (\<lambda>(b, q, t). length t)", goal_cases)
  case 1
  show ?case by simp
next
  case (2 b q c rest)
  then show ?case by (cases rest) auto
next
  case 3
  then show ?case by simp
next
  case 4
  then show ?case by simp
next
  case (5 b q c rest)
  then show ?case using length_skipLine[of rest] by (auto simp: less_Suc_eq_le)
next
  case (6 b q c rest)
  then show ?case using length_skipBlock[of "tl rest"] by (cases rest) (auto simp: less_Suc_eq_le)
next
  case 7
  then show ?case by simp
qed

definition stripJsonComments :: "string \<Rightarrow> string" where
  "stripJsonComments text = stripLoop False [] text"

subsection \<open>The sanitizer only deletes\<close>

lemma suffix_skipLine: "suffix (skipLine cs) cs"
  by (induction cs) (auto simp: suffix_Cons)

lemma suffix_skipBlock: "suffix (skipBlock cs) cs"
  by (induction cs rule: skipBlock.induct) (auto simp: suffix_Cons)

lemma subseq_stripLoop: "subseq (stripLoop b q t) t"
proof (induction b q t rule: stripLoop.induct)
  case (1 b q)
  show ?case by simp
next
  case (2 b q c rest)
  show ?case
  proof (cases b)
    case True
    show ?thesis
    proof (cases "c = CHR 0x5C \<and> rest \<noteq> []")
      case esc: True
      then obtain d ds where rest: "rest = d # ds" by (cases rest) auto
      from 2(1)[OF True esc] rest esc True show ?thesis by simp
    next
      case False
      with 2(2)[OF True False] True show ?thesis by simp
    qed
  next
    case out: False
    consider (quote) "c = CHR 0x22 \<or> c = CHR 0x27"
      | (line) "\<not> (c = CHR 0x22 \<or> c = CHR 0x27)"
          "c = CHR ''/'' \<and> rest \<noteq> [] \<and> hd rest = CHR ''/''"
      | (block) "\<not> (c = CHR 0x22 \<or> c = CHR 0x27)"
          "\<not> (c = CHR ''/'' \<and> rest \<noteq> [] \<and> hd rest = CHR ''/'')"
          "c = CHR ''/'' \<and> rest \<noteq> [] \<and> hd rest = CHR ''*''"
      | (plain) "\<not> (c = CHR 0x22 \<or> c = CHR 0x27)"
          "\<not> (c = CHR ''/'' \<and> rest \<noteq> [] \<and> hd rest = CHR ''/'')"
          "\<not> (c = CHR ''/'' \<and> rest \<noteq> [] \<and> hd rest = CHR ''*'')"
      by blast
    then show ?thesis
    proof cases
      case quote
      with 2(3)[OF out quote] out show ?thesis by simp
    next
      case line
      have "subseq (stripLoop False q (skipLine (c # rest))) (skipLine (c # rest))"
        using 2(4)[OF out line] .
      also have "subseq (skipLine (c # rest)) (c # rest)"
        using suffix_skipLine by (rule suffix_imp_subseq)
      finally show ?thesis using out line by simp
    next
      case block
      have "subseq (stripLoop False q (skipBlock (tl rest))) (skipBlock (tl rest))"
        using 2(5)[OF out block] .
      also have "subseq (skipBlock (tl rest)) (tl rest)"
        using suffix_skipBlock by (rule suffix_imp_subseq)
      also have "subseq (tl rest) (c # rest)"
        using block(3) by (cases rest) (auto intro: subseq_Cons')
      finally show ?thesis using out block by simp
    next
      case plain
      with 2(6)[OF out plain] out show ?thesis by auto
    qed
  qed
qed

text \<open>
  Claim C10. For every input string the output of \<open>stripJsonComments\<close> is a subsequence
  of the input: characters are deleted, never inserted, duplicated or reordered, so the
  output is never longer than the input.
\<close>

theorem stripJsonComments_subseq:
  "subseq (stripJsonComments text) text \<and> length (stripJsonComments text) \<le> length text"
  using subseq_stripLoop[of False "[]" "text"]
  by (auto simp: stripJsonComments_def dest: list_emb_length)

subsection \<open>String literals are copied\<close>

text \<open>
  What the claims call a string literal, as the sanitizer delimits it: an opening quote
  \<open>q\<close> (double or single), a body, and the first later \<open>q\<close> that no backslash escapes.
  \<open>string_body q body\<close> says that \<open>body\<close> is such a body: a sequence of escape pairs
  (a backslash and the character after it, whatever it is) and of other characters
  different from \<open>q\<close>. The body may hold \<open>//\<close>, \<open>/*\<close>, the other quote and escaped
  quotes.
\<close>

fun string_body :: "char \<Rightarrow> string \<Rightarrow> bool" where
  "string_body q [] = True"
| "string_body q (c # cs) =
     (if c = CHR 0x5C then (case cs of [] \<Rightarrow> False | d # ds \<Rightarrow> string_body q ds)
      else c \<noteq> q \<and> string_body q cs)"

text \<open>
  \<open>noComment st text\<close>: no comment opener (\<open>//\<close> or \<open>/*\<close>) stands outside a string
  literal of \<open>text\<close>, read from the state \<open>st\<close> (\<open>None\<close> outside a literal, \<open>Some q\<close>
  inside a literal opened by \<open>q\<close>). An unterminated literal runs to the end of the text.
\<close>

fun noComment :: "char option \<Rightarrow> string \<Rightarrow> bool" where
  "noComment st [] = True"
| "noComment (Some q) (c # cs) =
     (if c = CHR 0x5C then (case cs of [] \<Rightarrow> True | d # ds \<Rightarrow> noComment (Some q) ds)
      else noComment (if c = q then None else Some q) cs)"
| "noComment None (c # cs) =
     (if c = CHR 0x22 \<or> c = CHR 0x27 then noComment (Some c) cs
      else \<not> (c = CHR ''/'' \<and> (case cs of [] \<Rightarrow> False | d # ds \<Rightarrow> d = CHR ''/'' \<or> d = CHR ''*''))
         \<and> noComment None cs)"

text \<open>Outside a literal the stale \<open>stringChar\<close> is never read.\<close>

lemma stripLoop_outside_stringChar:
  "\<not> b \<Longrightarrow> stripLoop b q t = stripLoop b q' t"
proof (induction b q t rule: stripLoop.induct)
  case (1 b q)
  show ?case by simp
next
  case (2 b q c rest)
  then show ?case by auto
qed

lemma stripLoop_inside_body:
  "q = CHR 0x22 \<or> q = CHR 0x27 \<Longrightarrow> string_body q body \<Longrightarrow>
   stripLoop True [q] (body @ q # rest) = body @ q # stripLoop False [q] rest"
proof (induction q body rule: string_body.induct)
  case (1 q)
  then show ?case by auto
next
  case (2 q c cs)
  show ?case
  proof (cases "c = CHR 0x5C")
    case True
    with "2.prems"(2) obtain d ds where cs: "cs = d # ds" and b: "string_body q ds"
      by (cases cs) auto
    from "2.IH"(1)[OF True cs "2.prems"(1) b] True cs show ?thesis by simp
  next
    case False
    with "2.prems"(2) have "c \<noteq> q" "string_body q cs" by auto
    with "2.IH"(2)[OF False "2.prems"(1)] False show ?thesis by simp
  qed
qed

text \<open>
  The lexical structure the claims speak of. A text is a sequence of segments: a
  character that stands outside of literals and comments, a string literal (quote, body,
  closing quote), a line comment (\<open>//\<close> and what follows up to, not including, the line
  feed), a block comment with its closer, and, only at the end of the text, a literal
  that is never closed or a block comment that is never closed. \<open>sourceText\<close> is the
  text of a segment, \<open>keptText\<close> what the specification says is left of it: all of it
  for a character and a literal, nothing for a comment.
\<close>

datatype segment =
    Plain char
  | Literal char string
  | OpenLiteral char string
  | LineComment string
  | BlockComment string
  | OpenBlockComment string

fun sourceText :: "segment \<Rightarrow> string" where
  "sourceText (Plain c) = [c]"
| "sourceText (Literal q body) = q # body @ [q]"
| "sourceText (OpenLiteral q body) = q # body"
| "sourceText (LineComment s) = ''//'' @ s"
| "sourceText (BlockComment s) = ''/*'' @ s @ ''*/''"
| "sourceText (OpenBlockComment s) = ''/*'' @ s"

fun keptText :: "segment \<Rightarrow> string" where
  "keptText (Plain c) = [c]"
| "keptText (Literal q body) = q # body @ [q]"
| "keptText (OpenLiteral q body) = q # body"
| "keptText (LineComment s) = []"
| "keptText (BlockComment s) = []"
| "keptText (OpenBlockComment s) = []"

text \<open>The text made of a list of segments, and what sanitizing should leave of it.\<close>

definition render :: "segment list \<Rightarrow> string" where
  "render segs = concat (map sourceText segs)"

definition sanitized :: "segment list \<Rightarrow> string" where
  "sanitized segs = concat (map keptText segs)"

text \<open>
  The body of a literal that is never closed: as \<open>string_body\<close>, and the text may end
  with a lone backslash. \<open>noCloser s\<close>: the closer \<open>*/\<close> does not occur in \<open>s\<close>.
\<close>

fun open_body :: "char \<Rightarrow> string \<Rightarrow> bool" where
  "open_body q [] = True"
| "open_body q (c # cs) =
     (if c = CHR 0x5C then (case cs of [] \<Rightarrow> True | d # ds \<Rightarrow> open_body q ds)
      else c \<noteq> q \<and> open_body q cs)"

fun noCloser :: "string \<Rightarrow> bool" where
  "noCloser (a # b # cs) = (\<not> (a = CHR ''*'' \<and> b = CHR ''/'') \<and> noCloser (b # cs))"
| "noCloser cs = True"

text \<open>
  \<open>wellSegmented segs\<close>: the segments are what they are called, read from the left. A
  plain character is no quote, and a plain slash is not followed by a slash or a star
  (that would open a comment); the body of a literal is a \<open>string_body\<close>; a line
  comment holds no line feed and is followed by a line feed or by the end of the text; a
  block comment holds no closer before its own; an open literal or an open block comment
  is the last segment. The predicate does not mention the sanitizer.
\<close>

definition isQuote :: "char \<Rightarrow> bool" where
  "isQuote c \<longleftrightarrow> c = CHR 0x22 \<or> c = CHR 0x27"

fun wellSegmented :: "segment list \<Rightarrow> bool" where
  "wellSegmented [] = True"
| "wellSegmented (Plain c # segs) =
     (\<not> isQuote c \<and>
      \<not> (c = CHR ''/'' \<and> (case render segs of [] \<Rightarrow> False | d # ds \<Rightarrow> d = CHR ''/'' \<or> d = CHR ''*'')) \<and>
      wellSegmented segs)"
| "wellSegmented (Literal q body # segs) = (isQuote q \<and> string_body q body \<and> wellSegmented segs)"
| "wellSegmented (OpenLiteral q body # segs) = (isQuote q \<and> open_body q body \<and> segs = [])"
| "wellSegmented (LineComment s # segs) =
     (CHR 0x0A \<notin> set s \<and>
      (case render segs of [] \<Rightarrow> True | d # ds \<Rightarrow> d = CHR 0x0A) \<and> wellSegmented segs)"
| "wellSegmented (BlockComment s # segs) = (noCloser s \<and> wellSegmented segs)"
| "wellSegmented (OpenBlockComment s # segs) = (noCloser s \<and> segs = [])"

text \<open>The two inner loops on a comment.\<close>

lemma skipLine_comment: "CHR 0x0A \<notin> set s \<Longrightarrow> skipLine (s @ t) = skipLine t"
  by (induction s) auto

lemma skipLine_stop: "(case t of [] \<Rightarrow> True | d # ds \<Rightarrow> d = CHR 0x0A) \<Longrightarrow> skipLine t = t"
  by (cases t) auto

lemma skipBlock_open: "noCloser s \<Longrightarrow> skipBlock s = []"
  by (induction s rule: noCloser.induct) auto

lemma skipBlock_closed: "noCloser s \<Longrightarrow> skipBlock (s @ CHR ''*'' # CHR ''/'' # t) = t"
proof (induction s rule: noCloser.induct)
  case (1 a b cs)
  then show ?case by auto
qed simp_all

text \<open>The outer loop on a literal, open or closed, and on a whole segmented text.\<close>

lemma stripLoop_open_body:
  "open_body q body \<Longrightarrow> stripLoop True [q] body = body"
proof (induction q body rule: open_body.induct)
  case (1 q)
  then show ?case by simp
next
  case (2 q c cs)
  show ?case
  proof (cases "c = CHR 0x5C")
    case True
    show ?thesis
    proof (cases cs)
      case Nil
      with True show ?thesis by simp
    next
      case (Cons d ds)
      with "2.IH"(1)[OF True Cons] "2.prems" True show ?thesis by simp
    qed
  next
    case False
    with "2.prems" have "c \<noteq> q" "open_body q cs" by auto
    with "2.IH"(2)[OF False] False show ?thesis by simp
  qed
qed

lemma stripLoop_literal:
  assumes "isQuote q" and "string_body q body"
  shows "stripLoop False sc (q # body @ q # rest) = q # body @ q # stripLoop False sc rest"
proof -
  have "stripLoop False sc (q # body @ q # rest) = q # stripLoop True [q] (body @ q # rest)"
    using assms(1) by (auto simp: isQuote_def)
  also have "stripLoop True [q] (body @ q # rest) = body @ q # stripLoop False [q] rest"
    using assms by (intro stripLoop_inside_body) (auto simp: isQuote_def)
  also have "stripLoop False [q] rest = stripLoop False sc rest"
    by (rule stripLoop_outside_stringChar) simp
  finally show ?thesis by simp
qed

lemma stripLoop_segments:
  "wellSegmented segs \<Longrightarrow> stripLoop False sc (render segs) = sanitized segs"
proof (induction segs rule: wellSegmented.induct)
  case 1
  show ?case by (simp add: render_def sanitized_def)
next
  case (2 c segs)
  then have ih: "stripLoop False sc (render segs) = sanitized segs" by simp
  from "2.prems" have "stripLoop False sc (c # render segs) = c # stripLoop False sc (render segs)"
    by (cases "render segs") (auto simp: isQuote_def)
  with ih show ?case by (simp add: render_def sanitized_def)
next
  case (3 q body segs)
  then have ih: "stripLoop False sc (render segs) = sanitized segs" by simp
  from "3.prems" have "stripLoop False sc (q # body @ q # render segs) =
      q # body @ q # stripLoop False sc (render segs)"
    by (intro stripLoop_literal) auto
  with ih show ?case by (simp add: render_def sanitized_def)
next
  case (4 q body segs)
  then have "stripLoop False sc (q # body) = q # stripLoop True [q] body"
    by (auto simp: isQuote_def)
  with 4 show ?case by (simp add: render_def sanitized_def stripLoop_open_body)
next
  case (5 s segs)
  then have ih: "stripLoop False sc (render segs) = sanitized segs" by simp
  from "5.prems" have "skipLine (CHR ''/'' # CHR ''/'' # s @ render segs) = render segs"
    by (simp add: skipLine_comment skipLine_stop)
  then have "stripLoop False sc (CHR ''/'' # CHR ''/'' # s @ render segs) =
      stripLoop False sc (render segs)"
    by (simp del: skipLine.simps)
  with ih show ?case by (simp add: render_def sanitized_def)
next
  case (6 s segs)
  then have ih: "stripLoop False sc (render segs) = sanitized segs" by simp
  from "6.prems" have "skipBlock (s @ CHR ''*'' # CHR ''/'' # render segs) = render segs"
    by (simp add: skipBlock_closed)
  then have "stripLoop False sc (CHR ''/'' # CHR ''*'' # s @ CHR ''*'' # CHR ''/'' # render segs) =
      stripLoop False sc (render segs)"
    by simp
  with ih show ?case by (simp add: render_def sanitized_def)
next
  case (7 s segs)
  then show ?case by (simp add: render_def sanitized_def skipBlock_open)
qed


text \<open>
  Every text has a segmentation: after a quote the text either holds a body followed by
  the closing quote or is the body of an open literal, and after \<open>/*\<close> it either holds
  the closer or does not.
\<close>

lemma literal_split:
  "(\<exists>body rest. t = body @ q # rest \<and> string_body q body) \<or> open_body q t"
proof (induction q t rule: open_body.induct)
  case (1 q)
  show ?case by simp
next
  case (2 q c cs)
  show ?case
  proof (cases "c = CHR 0x5C")
    case True
    show ?thesis
    proof (cases cs)
      case Nil
      with True show ?thesis by simp
    next
      case (Cons d ds)
      from "2.IH"(1)[OF True Cons] show ?thesis
      proof
        assume "\<exists>body rest. ds = body @ q # rest \<and> string_body q body"
        then obtain body rest where "ds = body @ q # rest" "string_body q body" by blast
        then have "c # cs = (c # d # body) @ q # rest \<and> string_body q (c # d # body)"
          using True Cons by simp
        then show ?thesis by blast
      next
        assume "open_body q ds"
        then show ?thesis using True Cons by simp
      qed
    qed
  next
    case False
    show ?thesis
    proof (cases "c = q")
      case True
      then have "c # cs = [] @ q # cs \<and> string_body q []" by simp
      then show ?thesis by blast
    next
      case cq: False
      from "2.IH"(2)[OF False] show ?thesis
      proof
        assume "\<exists>body rest. cs = body @ q # rest \<and> string_body q body"
        then obtain body rest where "cs = body @ q # rest" "string_body q body" by blast
        then have "c # cs = (c # body) @ q # rest \<and> string_body q (c # body)"
          using False cq by simp
        then show ?thesis by blast
      next
        assume "open_body q cs"
        then show ?thesis using False cq by simp
      qed
    qed
  qed
qed

lemma closer_split:
  "noCloser r \<or> (\<exists>s t. r = s @ CHR ''*'' # CHR ''/'' # t \<and> noCloser s)"
proof (induction r rule: noCloser.induct)
  case (1 a b cs)
  show ?case
  proof (cases "a = CHR ''*'' \<and> b = CHR ''/''")
    case True
    then have "a # b # cs = [] @ CHR ''*'' # CHR ''/'' # cs \<and> noCloser []" by simp
    then show ?thesis by blast
  next
    case False
    from 1 show ?thesis
    proof
      assume "noCloser (b # cs)"
      then show ?thesis using False by simp
    next
      assume "\<exists>s t. b # cs = s @ CHR ''*'' # CHR ''/'' # t \<and> noCloser s"
      then obtain s t where st: "b # cs = s @ CHR ''*'' # CHR ''/'' # t" "noCloser s" by blast
      have "noCloser (a # s)"
      proof (cases s)
        case Nil
        then show ?thesis by simp
      next
        case (Cons s1 ss)
        with st have "s1 = b" by simp
        with Cons st(2) False show ?thesis by simp
      qed
      moreover have "a # b # cs = (a # s) @ CHR ''*'' # CHR ''/'' # t" using st(1) by simp
      ultimately show ?thesis by blast
    qed
  qed
qed simp_all

lemma render_Cons: "render (seg # segs) = sourceText seg @ render segs"
  by (simp add: render_def)

lemma dropWhile_stop:
  "(case dropWhile (\<lambda>x. x \<noteq> n) r of [] \<Rightarrow> True | d # ds \<Rightarrow> d = n)"
  by (induction r) auto

lemma every_text_segmented:"\<exists>segs. wellSegmented segs \<and> render segs = t"
proof (induction t rule: length_induct)
  case (1 t)
  then have ih: "\<And>u. length u < length t \<Longrightarrow> \<exists>segs. wellSegmented segs \<and> render segs = u" by blast
  show ?case
  proof (cases t)
    case Nil
    have "wellSegmented [] \<and> render [] = []" by (simp add: render_def)
    with Nil show ?thesis by blast
  next
    case (Cons c rest)
    consider (quote) "isQuote c"
      | (line) r where "c = CHR ''/''" "rest = CHR ''/'' # r"
      | (block) r where "c = CHR ''/''" "rest = CHR ''*'' # r"
      | (plain) "\<not> isQuote c"
          "\<not> (c = CHR ''/'' \<and> (case rest of [] \<Rightarrow> False | d # ds \<Rightarrow> d = CHR ''/'' \<or> d = CHR ''*''))"
      by (cases rest) auto
    then show ?thesis
    proof cases
      case quote
      from literal_split[of rest c] show ?thesis
      proof
        assume "\<exists>body rest'. rest = body @ c # rest' \<and> string_body c body"
        then obtain body rest' where b: "rest = body @ c # rest'" "string_body c body" by blast
        then have "length rest' < length t" using Cons by simp
        from ih[OF this] obtain segs where segs: "wellSegmented segs" "render segs = rest'" by blast
        have "wellSegmented (Literal c body # segs) \<and> render (Literal c body # segs) = t"
          using quote b segs Cons by (simp add: render_Cons)
        then show ?thesis by blast
      next
        assume "open_body c rest"
        then have "wellSegmented [OpenLiteral c rest] \<and> render [OpenLiteral c rest] = t"
          using quote Cons by (simp add: render_def)
        then show ?thesis by blast
      qed
    next
      case line
      let ?s = "takeWhile (\<lambda>x. x \<noteq> CHR 0x0A) r"
      let ?u = "dropWhile (\<lambda>x. x \<noteq> CHR 0x0A) r"
      have "length ?u \<le> length r" by (rule length_dropWhile_le)
      then have "length ?u < length t" using Cons line by simp
      from ih[OF this] obtain segs where segs: "wellSegmented segs" "render segs = ?u" by blast
      have nl: "CHR 0x0A \<notin> set ?s" by (auto dest: set_takeWhileD)
      have stop: "(case ?u of [] \<Rightarrow> True | d # ds \<Rightarrow> d = CHR 0x0A)"
        by (rule dropWhile_stop)
      have w: "wellSegmented (LineComment ?s # segs)"
        using nl stop segs by simp
      have "render (LineComment ?s # segs) = CHR ''/'' # CHR ''/'' # (?s @ ?u)"
        using segs(2) by (simp add: render_Cons)
      also have "\<dots> = t" unfolding takeWhile_dropWhile_id using Cons line by simp
      finally have "render (LineComment ?s # segs) = t" .
      with w show ?thesis by blast
    next
      case block
      from closer_split[of r] show ?thesis
      proof
        assume "noCloser r"
        then have "wellSegmented [OpenBlockComment r] \<and> render [OpenBlockComment r] = t"
          using Cons block by (simp add: render_def)
        then show ?thesis by blast
      next
        assume "\<exists>s u. r = s @ CHR ''*'' # CHR ''/'' # u \<and> noCloser s"
        then obtain s u where su: "r = s @ CHR ''*'' # CHR ''/'' # u" "noCloser s" by blast
        then have "length u < length t" using Cons block by simp
        from ih[OF this] obtain segs where segs: "wellSegmented segs" "render segs = u" by blast
        have "wellSegmented (BlockComment s # segs) \<and> render (BlockComment s # segs) = t"
          using su segs Cons block by (simp add: render_Cons)
        then show ?thesis by blast
      qed
    next
      case plain
      have "length rest < length t" using Cons by simp
      from ih[OF this] obtain segs where segs: "wellSegmented segs" "render segs = rest" by blast
      have "wellSegmented (Plain c # segs) \<and> render (Plain c # segs) = t"
        using plain segs Cons by (simp add: render_Cons)
      then show ?thesis by blast
    qed
  qed
qed

text \<open>
  Claim C3. Every input text is a sequence of segments, and whichever way it is read as
  one, the sanitizer returns the segments with the comments left out: every string
  literal, wherever it stands in the text (after plain characters, after comments, after
  other literals), is in the output character for character, with any \<open>//\<close> or \<open>/*\<close>
  inside it, and a quote escaped by a backslash does not end it (it belongs to the
  body). In particular \<open>{"a":"http://x"}\<close> is returned unchanged.
\<close>

theorem string_literal_kept:
  "(\<exists>segs. wellSegmented segs \<and> render segs = t)
   \<and> (\<forall>segs. wellSegmented segs \<and> render segs = t \<longrightarrow> stripJsonComments t = sanitized segs)
   \<and> stripJsonComments ''{\"a\":\"http://x\"}'' = ''{\"a\":\"http://x\"}''"
proof -
  have 1: "\<exists>segs. wellSegmented segs \<and> render segs = t" by (rule every_text_segmented)
  have 2: "\<forall>segs. wellSegmented segs \<and> render segs = t \<longrightarrow> stripJsonComments t = sanitized segs"
  proof (intro allI impI)
    fix segs
    assume a: "wellSegmented segs \<and> render segs = t"
    then have w: "wellSegmented segs" and r: "render segs = t" by simp_all
    from stripLoop_segments[OF w, of "[]"] r show "stripJsonComments t = sanitized segs"
      by (simp add: stripJsonComments_def)
  qed
  have 3: "stripJsonComments ''{\"a\":\"http://x\"}'' = ''{\"a\":\"http://x\"}''"
    by (simp add: stripJsonComments_def)
  from 1 2 3 show ?thesis by (intro conjI)
qed

text \<open>
  The witness: a block comment before the literal \<open>"http://x"\<close>, a single-quoted
  literal whose body holds an escaped quote and \<open>/*\<close>, and a line comment. Both
  literals are kept whole and both comments go.
\<close>

definition demoSegments :: "segment list" where
  "demoSegments =
     [Plain (CHR ''{''), BlockComment '' c '', Literal (CHR 0x22) ''http://x'',
      Plain (CHR '':''), Literal (CHR 0x27) [CHR ''u'', CHR 0x5C, CHR 0x27, CHR ''/'', CHR ''*''],
      LineComment '' d'', Plain (CHR 0x0A), Plain (CHR ''}'')]"

theorem string_literal_kept_witness:
  "wellSegmented demoSegments
   \<and> render demoSegments =
       ''{/* c */\"http://x\":'' @ [CHR 0x27, CHR ''u'', CHR 0x5C, CHR 0x27, CHR ''/'', CHR ''*'', CHR 0x27]
          @ ''// d'' @ [CHR 0x0A] @ ''}''
   \<and> stripJsonComments (render demoSegments)
     = ''{\"http://x\":'' @ [CHR 0x27, CHR ''u'', CHR 0x5C, CHR 0x27, CHR ''/'', CHR ''*'', CHR 0x27]
          @ [CHR 0x0A] @ ''}''"
proof -
  have w: "wellSegmented demoSegments" by (simp add: demoSegments_def isQuote_def render_def)
  have r: "render demoSegments =
       ''{/* c */\"http://x\":'' @ [CHR 0x27, CHR ''u'', CHR 0x5C, CHR 0x27, CHR ''/'', CHR ''*'', CHR 0x27]
          @ ''// d'' @ [CHR 0x0A] @ ''}''"
    by (simp add: demoSegments_def render_def)
  have k: "sanitized demoSegments =
       ''{\"http://x\":'' @ [CHR 0x27, CHR ''u'', CHR 0x5C, CHR 0x27, CHR ''/'', CHR ''*'', CHR 0x27]
          @ [CHR 0x0A] @ ''}''"
    by (simp add: demoSegments_def sanitized_def)
  note kept = string_literal_kept[of "render demoSegments", THEN conjunct2, THEN conjunct1,
      THEN spec, of demoSegments, THEN mp]
  have "stripJsonComments (render demoSegments) = sanitized demoSegments"
    by (rule kept) (simp add: w)
  then have "stripJsonComments (render demoSegments) =
       ''{\"http://x\":'' @ [CHR 0x27, CHR ''u'', CHR 0x5C, CHR 0x27, CHR ''/'', CHR ''*'', CHR 0x27]
          @ [CHR 0x0A] @ ''}''"
    by (simp only: k)
  with w r show ?thesis by (intro conjI)
qed

subsection \<open>Text without comments\<close>

lemma stripLoop_noComment:
  "noComment st t \<Longrightarrow>
   stripLoop (st \<noteq> None) (case st of None \<Rightarrow> sc | Some q \<Rightarrow> [q]) t = t"
proof (induction st t arbitrary: sc rule: noComment.induct)
  case (1 st)
  show ?case by simp
next
  case (2 q c cs)
  show ?case
  proof (cases "c = CHR 0x5C")
    case True
    show ?thesis
    proof (cases cs)
      case Nil
      with True show ?thesis by simp
    next
      case (Cons d ds)
      with "2.IH"(1)[OF True Cons] "2.prems" True show ?thesis by simp
    qed
  next
    case False
    from "2.IH"(2)[OF False, of "[q]"] "2.prems" False show ?thesis
      by (auto split: if_splits)
  qed
next
  case (3 c cs)
  show ?case
  proof (cases "c = CHR 0x22 \<or> c = CHR 0x27")
    case True
    from "3.IH"(1)[OF True] "3.prems" True show ?thesis by auto
  next
    case False
    from "3.IH"(2)[OF False, of sc] "3.prems" False show ?thesis
      by (cases cs) (auto split: if_splits)
  qed
qed

text \<open>
  The predicate is exact: a text with a comment opener outside of string literals loses
  at least the two characters of the opener.
\<close>

lemma length_stripLoop: "length (stripLoop b q t) \<le> length t"
  using subseq_stripLoop[of b q t] by (rule list_emb_length)

lemma stripLoop_identity_noComment:
  "stripLoop (st \<noteq> None) (case st of None \<Rightarrow> sc | Some q \<Rightarrow> [q]) t = t \<Longrightarrow> noComment st t"
proof (induction st t arbitrary: sc rule: noComment.induct)
  case (1 st)
  show ?case by simp
next
  case (2 q c cs)
  show ?case
  proof (cases "c = CHR 0x5C")
    case True
    show ?thesis
    proof (cases cs)
      case Nil
      with True show ?thesis by simp
    next
      case (Cons d ds)
      with "2.IH"(1)[OF True Cons] "2.prems" True show ?thesis by simp
    qed
  next
    case False
    from "2.IH"(2)[OF False, of "[q]"] "2.prems" False show ?thesis
      by (auto split: if_splits)
  qed
next
  case (3 c cs)
  show ?case
  proof (cases "c = CHR 0x22 \<or> c = CHR 0x27")
    case True
    from "3.IH"(1)[OF True] "3.prems" True show ?thesis by auto
  next
    case False
    show ?thesis
    proof (cases "c = CHR ''/'' \<and> cs \<noteq> [] \<and> (hd cs = CHR ''/'' \<or> hd cs = CHR ''*'')")
      case True
      then obtain d ds where cs: "cs = d # ds" by (cases cs) auto
      have "length (stripLoop False sc (c # cs)) < length (c # cs)"
      proof (cases "d = CHR ''/''")
        case dd: True
        have "length (stripLoop False sc (skipLine (c # cs))) \<le> length (skipLine (c # cs))"
          by (rule length_stripLoop)
        also have "skipLine (c # cs) = skipLine ds" using True cs dd by simp
        also have "length (skipLine ds) \<le> length ds" by (rule length_skipLine)
        finally show ?thesis using True cs dd False by simp
      next
        case nd: False
        then have st: "d = CHR ''*''" using True cs by simp
        have "length (stripLoop False sc (skipBlock ds)) \<le> length (skipBlock ds)"
          by (rule length_stripLoop)
        also have "length (skipBlock ds) \<le> length ds" by (rule length_skipBlock)
        finally show ?thesis using True cs st False by simp
      qed
      with "3.prems" show ?thesis by simp
    next
      case plain: False
      from "3.IH"(2)[OF False, of sc] "3.prems" False plain show ?thesis
        by (cases cs) (auto split: if_splits)
    qed
  qed
qed

lemma identity_only_without_comments:
  "stripJsonComments text = text \<Longrightarrow> noComment None text"
  using stripLoop_identity_noComment[of None "[]" "text"] by (simp add: stripJsonComments_def)

text \<open>
  Claim C8. On every text that has no comment opener (\<open>//\<close> or \<open>/*\<close>) outside of
  string literals, \<open>stripJsonComments\<close> is the identity.
\<close>

theorem no_comment_identity:
  "noComment None text \<Longrightarrow> stripJsonComments text = text"
  using stripLoop_noComment[of None "text" "[]"] by (simp add: stripJsonComments_def)

text \<open>
  The witness has comment openers inside a double-quoted and a single-quoted literal, and
  lone slashes and stars outside.
\<close>

theorem no_comment_identity_witness:
  "noComment None ''{\"url\": \"a//b /* c */\", 'k//': 1 / 2 * 3}''
   \<and> stripJsonComments ''{\"url\": \"a//b /* c */\", 'k//': 1 / 2 * 3}''
       = ''{\"url\": \"a//b /* c */\", 'k//': 1 / 2 * 3}''"
proof -
  have n: "noComment None ''{\"url\": \"a//b /* c */\", 'k//': 1 / 2 * 3}''"
    by simp
  from no_comment_identity[OF n] n show ?thesis by simp
qed

section \<open>extract-fu.ts: extractRecipes\<close>

text \<open>
  The extractor reads every file through \<open>readJsonFile\<close>, which returns what
  \<open>JSON.parse\<close> returns, or \<open>null\<close> for a file that cannot be read or parsed, and casts
  the result to the type it expects without checking it. Reading the files (\<open>walkDir\<close>,
  \<open>fs.readFileSync\<close>, \<open>JSON.parse\<close>) is left to the caller: an extractor takes the list
  of the \<open>readJsonFile\<close> results of the files found, in the order of the walk.

  \<open>nullish v d\<close> is \<open>v ?? d\<close> on a value whose absence is \<open>None\<close>, and \<open>item_count\<close> the
  anonymous object type \<open>{ item; count }\<close> of recipes and research costs.
\<close>

definition nullish :: "'a option \<Rightarrow> 'a \<Rightarrow> 'a" where
  "nullish v d = (case v of None \<Rightarrow> d | Some x \<Rightarrow> x)"

record ('i, 'c) item_count =
  item :: 'i
  count :: 'c

text \<open>
  A JSON value as \<open>JSON.parse\<close> returns it. A number is the real it denotes (the loop
  only tests a number for being zero and copies it), an object the list of its
  properties (one entry for a key). \<open>undefined\<close> is no JSON value: the
  result of reading a property is a \<open>json option\<close>, \<open>None\<close> for \<open>undefined\<close>.
\<close>

datatype json =
    JNull
  | JBool bool
  | JNum real
  | JStr string
  | JArr "json list"
  | JObj "(string \<times> json) list"

text \<open>
  The one exception the recipe loop can raise: reading a property of \<open>null\<close>, or calling
  \<open>map\<close> on a value that has no such method.
\<close>

datatype error = TypeError

text \<open>
  \<open>jsTruthy v\<close> is the truth value of \<open>v\<close> in a condition (\<open>!v\<close> is its negation): \<open>null\<close>,
  \<open>false\<close>, \<open>0\<close> and the empty string are falsy. \<open>getProp key v\<close> is \<open>v.key\<close> on a value
  that is not \<open>null\<close>, for the property names the loop reads (\<open>output\<close>, \<open>input\<close>, \<open>item\<close>,
  \<open>count\<close>, \<open>groups\<close>, \<open>duration\<close>): only an object can have one of them. \<open>getIndex0 v\<close>
  is \<open>v[0]\<close>: the first element of an array, the first character of a string, the
  property \<open>0\<close> of an object. \<open>coalesce v d\<close> is \<open>v ?? d\<close>: \<open>d\<close> for \<open>undefined\<close> and \<open>null\<close>.
\<close>

fun jsTruthy :: "json \<Rightarrow> bool" where
  "jsTruthy JNull = False"
| "jsTruthy (JBool b) = b"
| "jsTruthy (JNum n) = (n \<noteq> 0)"
| "jsTruthy (JStr s) = (s \<noteq> [])"
| "jsTruthy (JArr xs) = True"
| "jsTruthy (JObj kvs) = True"

fun getProp :: "string \<Rightarrow> json \<Rightarrow> json option" where
  "getProp key (JObj kvs) = map_of kvs key"
| "getProp key v = None"

fun getIndex0 :: "json \<Rightarrow> json option" where
  "getIndex0 (JArr xs) = (case xs of [] \<Rightarrow> None | x # rest \<Rightarrow> Some x)"
| "getIndex0 (JStr s) = (case s of [] \<Rightarrow> None | c # rest \<Rightarrow> Some (JStr [c]))"
| "getIndex0 (JObj kvs) = map_of kvs ''0''"
| "getIndex0 v = None"

definition coalesce :: "json option \<Rightarrow> json \<Rightarrow> json" where
  "coalesce v d = (case v of None \<Rightarrow> d | Some JNull \<Rightarrow> d | Some x \<Rightarrow> x)"

text \<open>
  \<open>ParsedRecipe\<close>. The fields hold whatever the file holds: the cast of the script does
  not convert anything.
\<close>

record ParsedRecipe =
  outputItem :: json
  outputCount :: json
  station :: json
  inputs :: "(json option, json) item_count list"
  groups :: json
  duration :: json

text \<open>
  \<open>data.input.map((i) => ({ item: i.item, count: i.count ?? 1 }))\<close>. The callback throws
  on an entry that is \<open>null\<close>; \<open>map\<close> itself exists on an array only, and the call throws
  on every other value (the guard before it has let through every truthy value).
\<close>

fun inputEntry :: "json \<Rightarrow> error + (json option, json) item_count" where
  "inputEntry JNull = Inl TypeError"
| "inputEntry i = Inr \<lparr>item = getProp ''item'' i, count = coalesce (getProp ''count'' i) (JNum 1)\<rparr>"

fun mapInputs :: "json list \<Rightarrow> error + (json option, json) item_count list" where
  "mapInputs [] = Inr []"
| "mapInputs (i # rest) =
     (case inputEntry i of
        Inl e \<Rightarrow> Inl e
      | Inr entry \<Rightarrow> (case mapInputs rest of Inl e \<Rightarrow> Inl e | Inr entries \<Rightarrow> Inr (entry # entries)))"

fun inputMap :: "json \<Rightarrow> error + (json option, json) item_count list" where
  "inputMap (JArr elems) = mapInputs elems"
| "inputMap v = Inl TypeError"

text \<open>
  One iteration of \<open>for (const file of recipeFiles)\<close>: the two \<open>continue\<close> guards,
  \<open>!data || !data.output || !data.input\<close> and \<open>!data.output.item\<close>, then the record that
  is pushed, unless building it throws.
\<close>

datatype outcome = Skipped | Thrown error | Pushed ParsedRecipe

definition recipeOf :: "json \<Rightarrow> outcome" where
  "recipeOf data =
     (if \<not> jsTruthy data then Skipped
      else case getProp ''output'' data of
        None \<Rightarrow> Skipped
      | Some out \<Rightarrow>
          if \<not> jsTruthy out then Skipped
          else case getProp ''input'' data of
            None \<Rightarrow> Skipped
          | Some inp \<Rightarrow>
              if \<not> jsTruthy inp then Skipped
              else case getProp ''item'' out of
                None \<Rightarrow> Skipped
              | Some outItem \<Rightarrow>
                  if \<not> jsTruthy outItem then Skipped
                  else case inputMap inp of
                    Inl e \<Rightarrow> Thrown e
                  | Inr ins \<Rightarrow>
                      Pushed \<lparr>outputItem = outItem,
                        outputCount = coalesce (getProp ''count'' out) (JNum 1),
                        station = coalesce
                          (case getProp ''groups'' data of None \<Rightarrow> None | Some JNull \<Rightarrow> None
                           | Some g \<Rightarrow> getIndex0 g) JNull,
                        inputs = ins,
                        groups = coalesce (getProp ''groups'' data) (JArr []),
                        duration = coalesce (getProp ''duration'' data) JNull\<rparr>)"



text \<open>
  A file that lacks a usable output item (no data, no \<open>output\<close>, no \<open>output.item\<close>, or a
  falsy one) or has no input (\<open>input\<close> absent or falsy). And a file that passes these tests
  and whose \<open>input\<close> is not a list of entries: not a list at all, or a list with a
  \<open>null\<close> in it.
\<close>

definition falsyOrMissing :: "json option \<Rightarrow> bool" where
  "falsyOrMissing v = (case v of None \<Rightarrow> True | Some x \<Rightarrow> \<not> jsTruthy x)"

definition lacksOutputItemOrInput :: "json \<Rightarrow> bool" where
  "lacksOutputItemOrInput data \<longleftrightarrow>
     \<not> jsTruthy data \<or>
     falsyOrMissing (getProp ''output'' data) \<or>
     falsyOrMissing (getProp ''input'' data) \<or>
     (case getProp ''output'' data of None \<Rightarrow> True | Some out \<Rightarrow> falsyOrMissing (getProp ''item'' out))"

fun isList :: "json \<Rightarrow> bool" where
  "isList (JArr xs) = True"
| "isList v = False"

fun holdsNull :: "json \<Rightarrow> bool" where
  "holdsNull (JArr xs) = (JNull \<in> set xs)"
| "holdsNull v = False"

definition inputNotAList :: "json \<Rightarrow> bool" where
  "inputNotAList data \<longleftrightarrow>
     \<not> lacksOutputItemOrInput data \<and>
     (case getProp ''input'' data of None \<Rightarrow> False | Some inp \<Rightarrow> \<not> isList inp \<or> holdsNull inp)"

text \<open>The two predicates are exact: they hold of the skipped and of the throwing files.\<close>

lemma recipeOf_skipped: "lacksOutputItemOrInput data \<Longrightarrow> recipeOf data = Skipped"
  by (auto simp: lacksOutputItemOrInput_def recipeOf_def falsyOrMissing_def split: option.splits)

lemma skipped_only_lacking: "recipeOf data = Skipped \<Longrightarrow> lacksOutputItemOrInput data"
  by (auto simp: lacksOutputItemOrInput_def recipeOf_def falsyOrMissing_def
      split: option.splits if_splits sum.splits)

lemma inputEntry_throws: "inputEntry i = Inl e \<longleftrightarrow> i = JNull"
  by (cases i; cases e) auto

lemma mapInputs_throws: "(\<exists>e. mapInputs elems = Inl e) \<longleftrightarrow> JNull \<in> set elems"
proof (induction elems)
  case Nil
  show ?case by simp
next
  case (Cons i elems)
  show ?case
  proof (cases "inputEntry i")
    case (Inl e)
    then show ?thesis using inputEntry_throws[of i e] by auto
  next
    case (Inr entry)
    then have "i \<noteq> JNull" by auto
    with Inr Cons show ?thesis by (auto split: sum.splits)
  qed
qed

lemma inputMap_throws: "(\<exists>e. inputMap inp = Inl e) \<longleftrightarrow> \<not> isList inp \<or> holdsNull inp"
  using mapInputs_throws by (cases inp) auto


lemma thrown_only_not_a_list: "recipeOf data = Thrown e \<Longrightarrow> inputNotAList data"
proof -
  assume t: "recipeOf data = Thrown e"
  then have n: "\<not> lacksOutputItemOrInput data" using recipeOf_skipped[of data] by auto
  from t obtain inp where "getProp ''input'' data = Some inp" "inputMap inp = Inl e"
    by (auto simp: recipeOf_def split: option.splits if_splits sum.splits)
  then show ?thesis using n inputMap_throws[of inp] by (auto simp: inputNotAList_def)
qed















section \<open>extract-fu.ts: insertData, the centrifuge rarity tiers\<close>

text \<open>
  The centrifuge transaction of \<open>insertData\<close> stores, for every output of a recipe,
  \<open>chance: o.rarity === "common" ? 0.9 : o.rarity === "uncommon" ? 0.5 :
  o.rarity === "rare" ? 0.2 : 0.05\<close>. The four decimal literals are modelled as the
  real numbers they denote; no arithmetic is done on them, and rounding a literal to the
  nearest double is monotone, so their order is the order of the decimals.
\<close>

definition chance :: "string \<Rightarrow> real" where
  "chance rarity =
     (if rarity = ''common'' then 0.9
      else if rarity = ''uncommon'' then 0.5
      else if rarity = ''rare'' then 0.2
      else 0.05)"

text \<open>
  Claim C5. The rarity tiers common, uncommon, rare, rarest are mapped to strictly
  decreasing probabilities, with common at 0.9 and rarest at 0.05.
\<close>

theorem chance_tiers_decreasing:
  "chance ''common'' = 0.9 \<and> chance ''rarest'' = 0.05 \<and>
   chance ''common'' > chance ''uncommon'' \<and>
   chance ''uncommon'' > chance ''rare'' \<and>
   chance ''rare'' > chance ''rarest''"
  by (simp add: chance_def)

section \<open>extract-fu.ts: extractResearchTrees\<close>

text \<open>
  A research config is modelled at the type the script casts the parsed JSON to, with an
  \<open>option\<close> wherever the code itself provides for a missing value (\<open>!x\<close>, \<open>x ?? d\<close>,
  \<open>x?.y\<close>): \<open>None\<close> stands for \<open>undefined\<close> and \<open>null\<close>, also for a file that could not
  be read. A JavaScript object read with \<open>Object.entries\<close> is the list of its entries in
  that order.

  The shapes a research config is cast to: \<open>researchTree\<close> maps a tree id to the nodes
  of the tree, a node id to the node's body (\<open>None\<close> for an entry that fails the test
  \<open>typeof nodeData === "object" && nodeData !== null\<close>); \<open>strings\<close> holds the display
  names. A node body has no field for prerequisites.
\<close>

record node_json =
  price :: "(string \<times> real) list option"
  children :: "string list option"
  unlocks :: "string list option"

record node_strings =
  name :: "string option"
  description :: "string option"

record strings_json =
  trees :: "(string \<times> string) list option"
  research :: "(string \<times> node_strings) list option"

record config_json =
  researchTree :: "(string \<times> (string \<times> node_json option) list) list option"
  strings :: "strings_json option"

record ParsedResearchNode =
  tree :: string
  nodeId :: string
  name :: string
  description :: string
  cost :: "(string, real) item_count list"
  prerequisites :: "string list"
  unlocks :: "string list"

text \<open>The node pushed in the first pass, with \<open>prerequisites: []\<close>.\<close>

definition parseNode ::
  "strings_json \<Rightarrow> string \<Rightarrow> string \<Rightarrow> string \<Rightarrow> node_json \<Rightarrow> ParsedResearchNode" where
  "parseNode strs treeId treeName nodeKey nodeData =
     (let nodeStrings = (case research strs of None \<Rightarrow> None | Some r \<Rightarrow> map_of r nodeKey);
          nodeName = (case nodeStrings of None \<Rightarrow> nodeKey
                      | Some ns \<Rightarrow> nullish (node_strings.name ns) nodeKey);
          descr = (case nodeStrings of None \<Rightarrow> []
                   | Some ns \<Rightarrow> nullish (node_strings.description ns) []);
          cost = map (\<lambda>(i, c). \<lparr>item = i, count = c\<rparr>) (nullish (price nodeData) []);
          unl = nullish (node_json.unlocks nodeData) []
      in \<lparr>tree = treeName, nodeId = treeId @ '':'' @ nodeKey, name = nodeName,
          description = descr, cost = cost, prerequisites = [], unlocks = unl\<rparr>)"

text \<open>\<open>strings?.trees?.[treeId] ?? treeId\<close>\<close>

definition treeNameOf :: "strings_json \<Rightarrow> string \<Rightarrow> string" where
  "treeNameOf strs treeId =
     nullish (case trees strs of None \<Rightarrow> None | Some t \<Rightarrow> map_of t treeId) treeId"

text \<open>
  The first pass: the three nested \<open>for\<close> loops over the files, the trees of a file and
  the nodes of a tree, pushing one node for every node body. A loop over a list with a
  mutable accumulator is a \<open>fold\<close>.
\<close>

definition collectNodes :: "config_json option list \<Rightarrow> ParsedResearchNode list" where
  "collectNodes configFiles =
     fold (\<lambda>file nodes.
        case file of None \<Rightarrow> nodes
        | Some data \<Rightarrow>
            (case researchTree data of None \<Rightarrow> nodes
             | Some rt \<Rightarrow>
                 let strs = nullish (strings data) \<lparr>trees = None, research = None\<rparr> in
                 fold (\<lambda>(treeId, treeNodes) nodes.
                    let treeName = treeNameOf strs treeId
                    in fold (\<lambda>(nodeKey, nodeData) nodes.
                         case nodeData of None \<Rightarrow> nodes
                         | Some nd \<Rightarrow> nodes @ [parseNode strs treeId treeName nodeKey nd])
                       treeNodes nodes)
                   rt nodes))
       configFiles []"

text \<open>
  The second pass reads every file again and fills the map \<open>childToParent\<close>:
  for each child id of a node, \<open>existing = childToParent.get(fullChildId) ?? []\<close>,
  \<open>existing.push(fullNodeId)\<close>, \<open>childToParent.set(fullChildId, existing)\<close>. (The loop over
  \<open>nodeMap\<close> between the two passes has an empty body and is left out.)
\<close>

type_synonym child_map = "string \<rightharpoonup> string list"

definition addChildren :: "string \<Rightarrow> string \<Rightarrow> string list \<Rightarrow> child_map \<Rightarrow> child_map" where
  "addChildren treeId fullNodeId chs childToParent =
     fold (\<lambda>childId m.
        let fullChildId = treeId @ '':'' @ childId;
            existing = nullish (m fullChildId) []
        in m(fullChildId \<mapsto> existing @ [fullNodeId]))
       chs childToParent"

definition invertChildren :: "config_json option list \<Rightarrow> child_map" where
  "invertChildren configFiles =
     fold (\<lambda>file m.
        case file of None \<Rightarrow> m
        | Some data \<Rightarrow>
            (case researchTree data of None \<Rightarrow> m
             | Some rt \<Rightarrow>
                 fold (\<lambda>(treeId, treeNodes) m.
                    fold (\<lambda>(nodeKey, nodeData) m.
                       case nodeData of None \<Rightarrow> m
                       | Some nd \<Rightarrow>
                           addChildren treeId (treeId @ '':'' @ nodeKey) (nullish (children nd) []) m)
                      treeNodes m)
                   rt m))
       configFiles Map.empty"

text \<open>
  Last, \<open>node.prerequisites = childToParent.get(node.nodeId) ?? []\<close> for every node.
\<close>

definition extractResearchTrees :: "config_json option list \<Rightarrow> ParsedResearchNode list" where
  "extractResearchTrees configFiles =
     (let nodes = collectNodes configFiles;
          childToParent = invertChildren configFiles
      in map (\<lambda>node. node\<lparr>prerequisites := nullish (childToParent (nodeId node)) []\<rparr>) nodes)"

subsection \<open>Prerequisites are the inverted children lists\<close>

text \<open>
  The inversion the specification describes, written without the map: \<open>parentsOf files k\<close>
  lists, in the order of the scan, the full id \<open>tree:node\<close> of every node that names in
  its \<open>children\<close> a child whose full id \<open>tree:child\<close> is \<open>k\<close>, once for each time it names
  it.
\<close>

definition nodeParents :: "string \<Rightarrow> string \<Rightarrow> string \<times> node_json option \<Rightarrow> string list" where
  "nodeParents k treeId entry =
     (case snd entry of None \<Rightarrow> []
      | Some nd \<Rightarrow>
          map (\<lambda>c. treeId @ '':'' @ fst entry)
            (filter (\<lambda>c. treeId @ '':'' @ c = k) (nullish (children nd) [])))"

definition treeParents :: "string \<Rightarrow> string \<times> (string \<times> node_json option) list \<Rightarrow> string list" where
  "treeParents k tr = concat (map (nodeParents k (fst tr)) (snd tr))"

definition fileParents :: "string \<Rightarrow> config_json option \<Rightarrow> string list" where
  "fileParents k file =
     (case file of None \<Rightarrow> []
      | Some data \<Rightarrow>
          (case researchTree data of None \<Rightarrow> [] | Some rt \<Rightarrow> concat (map (treeParents k) rt)))"

definition parentsOf :: "config_json option list \<Rightarrow> string \<Rightarrow> string list" where
  "parentsOf configFiles k = concat (map (fileParents k) configFiles)"

lemma addChildren_get:
  "nullish (addChildren t f cs m k) [] =
   nullish (m k) [] @ map (\<lambda>c. f) (filter (\<lambda>c. t @ '':'' @ c = k) cs)"
  unfolding addChildren_def
  by (induction cs arbitrary: m) (auto simp: nullish_def Let_def)

lemma nodes_get:
  "nullish (fold (\<lambda>(nodeKey, nodeData) m.
       case nodeData of None \<Rightarrow> m
       | Some nd \<Rightarrow> addChildren t (t @ '':'' @ nodeKey) (nullish (children nd) []) m) ns m k) [] =
   nullish (m k) [] @ treeParents k (t, ns)"
  by (induction ns arbitrary: m)
    (auto simp: treeParents_def nodeParents_def addChildren_get split: option.splits)

lemma trees_get:
  "nullish (fold (\<lambda>(treeId, treeNodes) m.
       fold (\<lambda>(nodeKey, nodeData) m.
          case nodeData of None \<Rightarrow> m
          | Some nd \<Rightarrow> addChildren treeId (treeId @ '':'' @ nodeKey) (nullish (children nd) []) m)
         treeNodes m) rt m k) [] =
   nullish (m k) [] @ concat (map (treeParents k) rt)"
  by (induction rt arbitrary: m) (auto simp: nodes_get)

lemma files_get:
  "nullish (fold (\<lambda>file m.
        case file of None \<Rightarrow> m
        | Some data \<Rightarrow>
            (case researchTree data of None \<Rightarrow> m
             | Some rt \<Rightarrow>
                 fold (\<lambda>(treeId, treeNodes) m.
                    fold (\<lambda>(nodeKey, nodeData) m.
                       case nodeData of None \<Rightarrow> m
                       | Some nd \<Rightarrow>
                           addChildren treeId (treeId @ '':'' @ nodeKey) (nullish (children nd) []) m)
                      treeNodes m)
                   rt m)) fs m k) [] =
   nullish (m k) [] @ parentsOf fs k"
  by (induction fs arbitrary: m)
    (auto simp: parentsOf_def fileParents_def trees_get split: option.splits)

lemma invertChildren_get:
  "nullish (invertChildren configFiles k) [] = parentsOf configFiles k"
  unfolding invertChildren_def using files_get[of configFiles Map.empty k]
  by (simp add: nullish_def)

lemma parentsOf_member:
  assumes "Some data \<in> set configFiles" and "researchTree data = Some rt"
    and "(t1, treeNodes) \<in> set rt" and "(a, Some nd) \<in> set treeNodes"
    and "children nd = Some chs" and "b \<in> set chs"
  shows "t1 @ '':'' @ a \<in> set (parentsOf configFiles (t1 @ '':'' @ b))"
proof -
  have "t1 @ '':'' @ a \<in> set (nodeParents (t1 @ '':'' @ b) t1 (a, Some nd))"
    using assms(5,6) by (auto simp: nodeParents_def nullish_def)
  then have "t1 @ '':'' @ a \<in> set (treeParents (t1 @ '':'' @ b) (t1, treeNodes))"
    using assms(4) by (auto simp: treeParents_def)
  then have "t1 @ '':'' @ a \<in> set (fileParents (t1 @ '':'' @ b) (Some data))"
    using assms(2,3) by (auto simp: fileParents_def)
  then show ?thesis
    using assms(1) by (auto simp: parentsOf_def)
qed

lemma prerequisites_inverted:
  assumes "node \<in> set (extractResearchTrees configFiles)"
  shows "prerequisites node = parentsOf configFiles (nodeId node)"
  using assms invertChildren_get[of configFiles]
  by (auto simp: extractResearchTrees_def Let_def)


lemma fold_push_concat:
  "(\<And>x acc. step x acc = acc @ g x) \<Longrightarrow> fold step xs acc = acc @ concat (map g xs)"
  by (induction xs arbitrary: acc) simp_all

fun treeNodesOf ::
  "strings_json \<Rightarrow> string \<times> (string \<times> node_json option) list \<Rightarrow> ParsedResearchNode list" where
  "treeNodesOf strs (treeId, treeNodes) =
     concat (map (\<lambda>(nodeKey, nodeData).
        case nodeData of None \<Rightarrow> []
        | Some nd \<Rightarrow> [parseNode strs treeId (treeNameOf strs treeId) nodeKey nd]) treeNodes)"

definition fileNodesOf :: "config_json option \<Rightarrow> ParsedResearchNode list" where
  "fileNodesOf file =
     (case file of None \<Rightarrow> []
      | Some data \<Rightarrow>
          (case researchTree data of None \<Rightarrow> []
           | Some rt \<Rightarrow>
               concat (map (treeNodesOf (nullish (strings data) \<lparr>trees = None, research = None\<rparr>)) rt)))"

lemma collectNodes_concat: "collectNodes configFiles = concat (map fileNodesOf configFiles)"
proof -
  have nodes: "fold (\<lambda>(nodeKey, nodeData) nodes.
          case nodeData of None \<Rightarrow> nodes
          | Some nd \<Rightarrow> nodes @ [parseNode strs t tn nodeKey nd]) ns acc =
        acc @ concat (map (\<lambda>(nodeKey, nodeData).
          case nodeData of None \<Rightarrow> [] | Some nd \<Rightarrow> [parseNode strs t tn nodeKey nd]) ns)"
    for strs t tn ns acc
    by (rule fold_push_concat) (auto split: option.splits)
  have trees: "fold (\<lambda>(treeId, treeNodes) nodes.
          fold (\<lambda>(nodeKey, nodeData) nodes.
               case nodeData of None \<Rightarrow> nodes
               | Some nd \<Rightarrow> nodes @ [parseNode strs treeId (treeNameOf strs treeId) nodeKey nd])
             treeNodes nodes) rt acc =
        acc @ concat (map (treeNodesOf strs) rt)"
    for strs rt acc
    by (rule fold_push_concat) (auto simp: nodes Let_def)
  have "collectNodes configFiles = [] @ concat (map fileNodesOf configFiles)"
    unfolding collectNodes_def
    by (rule fold_push_concat) (simp add: trees fileNodesOf_def Let_def split: option.splits)
  then show ?thesis by simp
qed

lemma nodeId_parseNode [simp]: "nodeId (parseNode strs t tn k nd) = t @ '':'' @ k"
  by (simp add: parseNode_def Let_def)

lemma declared_node_extracted:
  assumes "Some data \<in> set configFiles" and "researchTree data = Some rt"
    and "(t1, treeNodes) \<in> set rt" and "(b, Some nb) \<in> set treeNodes"
  shows "\<exists>node \<in> set (extractResearchTrees configFiles). nodeId node = t1 @ '':'' @ b"
proof -
  let ?strs = "nullish (strings data) \<lparr>trees = None, research = None\<rparr>"
  let ?tn = "treeNameOf ?strs t1"
  have "parseNode ?strs t1 ?tn b nb \<in> set (treeNodesOf ?strs (t1, treeNodes))"
    using assms(4)
    by (simp add: image_iff) (rule bexI[of _ "(b, Some nb)"], simp_all)
  then have "parseNode ?strs t1 ?tn b nb \<in> set (fileNodesOf (Some data))"
    using assms(2,3) by (simp add: fileNodesOf_def del: treeNodesOf.simps) blast
  then have "parseNode ?strs t1 ?tn b nb \<in> set (collectNodes configFiles)"
    using assms(1) by (simp add: collectNodes_concat) blast
  then have "t1 @ '':'' @ b \<in> nodeId ` set (collectNodes configFiles)"
    by (metis image_eqI nodeId_parseNode)
  then show ?thesis
    by (auto simp: extractResearchTrees_def Let_def)
qed


text \<open>
  Claim C1. If, in some config file, node \<open>a\<close> of tree \<open>t1\<close> lists \<open>b\<close> in its children,
  then every extracted node with id \<open>t1:b\<close> has \<open>t1:a\<close> among its prerequisites. The
  prerequisites of an extracted node are exactly the inverted children lists of all files
  (nothing else is read for them), so a child named by several parents, in the same file
  or in different ones, has all of them. And when \<open>b\<close> is declared as a node of \<open>t1\<close> in
  some file, a node with id \<open>t1:b\<close> is extracted.
\<close>

theorem children_become_prerequisites:
  assumes "Some data \<in> set configFiles" and "researchTree data = Some rt"
    and "(t1, treeNodes) \<in> set rt" and "(a, Some nd) \<in> set treeNodes"
    and "children nd = Some chs" and "b \<in> set chs"
  shows "(\<forall>node \<in> set (extractResearchTrees configFiles).
            nodeId node = t1 @ '':'' @ b \<longrightarrow>
              t1 @ '':'' @ a \<in> set (prerequisites node) \<and>
              prerequisites node = parentsOf configFiles (t1 @ '':'' @ b))
       \<and> ((\<exists>data' rt' treeNodes' nb. Some data' \<in> set configFiles \<and> researchTree data' = Some rt' \<and>
               (t1, treeNodes') \<in> set rt' \<and> (b, Some nb) \<in> set treeNodes') \<longrightarrow>
            (\<exists>node \<in> set (extractResearchTrees configFiles). nodeId node = t1 @ '':'' @ b))"
  using parentsOf_member[OF assms] prerequisites_inverted[of _ configFiles]
    declared_node_extracted[of _ configFiles _ t1 _ b]
  by (metis (no_types, lifting))

text \<open>
  The witness: node \<open>b\<close> of tree \<open>t1\<close> is named as a child by \<open>a\<close> in the same file and
  by \<open>c\<close> in another file.
\<close>

definition demoConfigs :: "config_json option list" where
  "demoConfigs =
    [Some \<lparr>researchTree = Some [(''t1'',
        [(''a'', Some \<lparr>price = None, children = Some [''b''], unlocks = None\<rparr>),
         (''b'', Some \<lparr>price = Some [(''ore'', 5)], children = None, unlocks = Some [''x'']\<rparr>)])],
       strings = None\<rparr>,
     None,
     Some \<lparr>researchTree = Some [(''t1'',
        [(''c'', Some \<lparr>price = None, children = Some [''b'', ''z''], unlocks = None\<rparr>),
         (''d'', None)])],
       strings = Some \<lparr>trees = Some [(''t1'', ''Tree One'')], research = None\<rparr>\<rparr>]"

theorem children_become_prerequisites_witness:
  "nodeId (extractResearchTrees demoConfigs ! 1) = ''t1:b'' \<and>
   ''t1:a'' \<in> set (prerequisites (extractResearchTrees demoConfigs ! 1)) \<and>
   prerequisites (extractResearchTrees demoConfigs ! 1) = [''t1:a'', ''t1:c'']"
proof -
  let ?R = "extractResearchTrees demoConfigs"
  let ?a = "\<lparr>price = None, children = Some [''b''], unlocks = None\<rparr>"
  let ?b = "\<lparr>price = Some [(''ore'', 5::real)], children = None, unlocks = Some [''x'']\<rparr>"
  let ?nodes = "[(''a'', Some ?a), (''b'', Some ?b)]"
  let ?data = "\<lparr>researchTree = Some [(''t1'', ?nodes)], strings = None\<rparr>"
  have R: "?R =
     [\<lparr>tree = ''t1'', nodeId = ''t1:a'', name = ''a'', description = [], cost = [],
       prerequisites = [], unlocks = []\<rparr>,
      \<lparr>tree = ''t1'', nodeId = ''t1:b'', name = ''b'', description = [],
       cost = [\<lparr>item = ''ore'', count = 5\<rparr>],
       prerequisites = [''t1:a'', ''t1:c''], unlocks = [''x'']\<rparr>,
      \<lparr>tree = ''Tree One'', nodeId = ''t1:c'', name = ''c'', description = [], cost = [],
       prerequisites = [], unlocks = []\<rparr>]"
    by (simp add: demoConfigs_def extractResearchTrees_def collectNodes_def invertChildren_def
        addChildren_def parseNode_def nullish_def treeNameOf_def Let_def)
  have h1: "Some ?data \<in> set demoConfigs" by (simp add: demoConfigs_def)
  have h2: "researchTree ?data = Some [(''t1'', ?nodes)]" by simp
  have h3: "(''t1'', ?nodes) \<in> set [(''t1'', ?nodes)]" by simp
  have h4: "(''a'', Some ?a) \<in> set ?nodes" by simp
  have h5: "children ?a = Some [''b'']" by simp
  have h6: "''b'' \<in> set [''b'']" by simp
  have every: "\<forall>node \<in> set ?R. nodeId node = ''t1'' @ '':'' @ ''b'' \<longrightarrow>
      ''t1'' @ '':'' @ ''a'' \<in> set (prerequisites node) \<and>
      prerequisites node = parentsOf demoConfigs (''t1'' @ '':'' @ ''b'')"
    using children_become_prerequisites[OF h1 h2 h3 h4 h5 h6] by (rule conjunct1)
  have mem: "?R ! 1 \<in> set ?R" using R by simp
  have nid: "nodeId (?R ! 1) = ''t1'' @ '':'' @ ''b''" using R by simp
  from every[rule_format, OF mem nid] have "''t1'' @ '':'' @ ''a'' \<in> set (prerequisites (?R ! 1))"
    by (rule conjunct1)
  then show ?thesis using R by simp
qed

section \<open>extract-lua-docs.ts: parsing signatures\<close>

text \<open>
  The regular expressions of the scripts are matched by hand-written matchers over the
  rest of the text. The character classes: \<open>\s\<close> (for code units below 256: tab, line
  feed, vertical tab, form feed, carriage return, space and the no-break space), which
  is also what \<open>trim()\<close> strips, and \<open>\w\<close>.
\<close>

definition isSpace :: "char \<Rightarrow> bool" where
  "isSpace c \<longleftrightarrow> c \<in> {CHR 0x09, CHR 0x0A, CHR 0x0B, CHR 0x0C, CHR 0x0D, CHR 0x20, CHR 0xA0}"

definition isWord :: "char \<Rightarrow> bool" where
  "isWord c \<longleftrightarrow> c \<in> set ''abcdefghijklmnopqrstuvwxyzABCDEFGHIJKLMNOPQRSTUVWXYZ0123456789_''"

definition trim :: "string \<Rightarrow> string" where
  "trim s = rev (dropWhile isSpace (rev (dropWhile isSpace s)))"

text \<open>
  A matcher takes the text at the current position and returns what it captured and the
  text after the match, or \<open>None\<close>. \<open>lit c\<close> matches the character \<open>c\<close>; \<open>many P\<close> is a
  greedy \<open>[P]*\<close> and \<open>many1 P\<close> a greedy \<open>[P]+\<close>. In every pattern below a repetition is
  followed by a character outside its class (or by something that always matches), so
  giving characters back never turns a failure into a match and the greedy choice is the
  only one the backtracking engine can succeed with.
\<close>

definition lit :: "char \<Rightarrow> string \<Rightarrow> string option" where
  "lit c s = (case s of [] \<Rightarrow> None | d # r \<Rightarrow> if d = c then Some r else None)"

definition many :: "(char \<Rightarrow> bool) \<Rightarrow> string \<Rightarrow> string \<times> string" where
  "many P s = (takeWhile P s, dropWhile P s)"

definition many1 :: "(char \<Rightarrow> bool) \<Rightarrow> string \<Rightarrow> (string \<times> string) option" where
  "many1 P s = (if takeWhile P s = [] then None else Some (takeWhile P s, dropWhile P s))"

text \<open>
  \<open>^#{3,4}\<close>: three hashes, and a fourth when there is one. With five or more the
  \<open>\s+\<close> that follows fails on the fifth hash, also after backtracking to three.
\<close>

definition hashes34 :: "string \<Rightarrow> string option" where
  "hashes34 s =
     (let n = length (takeWhile (\<lambda>c. c = CHR ''#'') s)
      in if n < 3 then None else Some (drop (min n 4) s))"

text \<open>\<open>$\<close> without the multiline flag: the end of the text.\<close>

definition atEnd :: "string \<Rightarrow> unit option" where
  "atEnd s = (if s = [] then Some () else None)"

text \<open>
  \<open>parseSignatureLine\<close> tries
  \<^verbatim>\<open>/^#{3,4}\s+`([^`]+)`\s+(\w+)\.(\w+)\(([^)]*)\)\s*$/\<close> and then, for a signature
  without return type, \<^verbatim>\<open>/^#{3,4}\s+(\w+)\.(\w+)\(([^)]*)\)\s*$/\<close>. The result is
  \<open>(returnType, tableName, functionName, rawParams)\<close>.
\<close>

definition parseSignatureLine :: "string \<Rightarrow> (string \<times> string \<times> string \<times> string) option" where
  "parseSignatureLine line =
     (case do {
          r \<leftarrow> hashes34 line;
          (_, r) \<leftarrow> many1 isSpace r;
          r \<leftarrow> lit (CHR 0x60) r;
          (returnType, r) \<leftarrow> many1 (\<lambda>c. c \<noteq> CHR 0x60) r;
          r \<leftarrow> lit (CHR 0x60) r;
          (_, r) \<leftarrow> many1 isSpace r;
          (tableName, r) \<leftarrow> many1 isWord r;
          r \<leftarrow> lit (CHR ''.'') r;
          (functionName, r) \<leftarrow> many1 isWord r;
          r \<leftarrow> lit (CHR ''('') r;
          (rawParams, r) \<leftarrow> Some (many (\<lambda>c. c \<noteq> CHR '')'') r);
          r \<leftarrow> lit (CHR '')'') r;
          (_, r) \<leftarrow> Some (many isSpace r);
          _ \<leftarrow> atEnd r;
          Some (returnType, tableName, functionName, rawParams)
        } of
        Some m \<Rightarrow> Some m
      | None \<Rightarrow>
          do {
            r \<leftarrow> hashes34 line;
            (_, r) \<leftarrow> many1 isSpace r;
            (tableName, r) \<leftarrow> many1 isWord r;
            r \<leftarrow> lit (CHR ''.'') r;
            (functionName, r) \<leftarrow> many1 isWord r;
            r \<leftarrow> lit (CHR ''('') r;
            (rawParams, r) \<leftarrow> Some (many (\<lambda>c. c \<noteq> CHR '')'') r);
            r \<leftarrow> lit (CHR '')'') r;
            (_, r) \<leftarrow> Some (many isSpace r);
            _ \<leftarrow> atEnd r;
            Some (''void'', tableName, functionName, rawParams)
          })"

record ParsedParam =
  name :: string
  type :: string
  optional :: bool

record ParsedFunction =
  tableName :: string
  functionName :: string
  returnType :: string
  parameters :: "ParsedParam list"
  signature :: string
  description :: string
  isOverload :: bool
  sourceFile :: string
  lineNumber :: nat

text \<open>
  One match of \<^verbatim>\<open>/(\[?)\s*`([^`]+)`\s+(\w+)\s*\]?/g\<close> at the current position:
  the parameter \<open>{ name: match[3], type: match[2], optional: match[1] === "[" }\<close> and
  the text after the match.
\<close>

definition matchParam :: "string \<Rightarrow> (ParsedParam \<times> string) option" where
  "matchParam s =
     do {
       (bracket, r) \<leftarrow> Some (case s of c # r \<Rightarrow> if c = CHR ''['' then (''['', r) else ([], s)
                                | [] \<Rightarrow> ([], s));
       (_, r) \<leftarrow> Some (many isSpace r);
       r \<leftarrow> lit (CHR 0x60) r;
       (ty, r) \<leftarrow> many1 (\<lambda>c. c \<noteq> CHR 0x60) r;
       r \<leftarrow> lit (CHR 0x60) r;
       (_, r) \<leftarrow> many1 isSpace r;
       (nm, r) \<leftarrow> many1 isWord r;
       (_, r) \<leftarrow> Some (many isSpace r);
       r \<leftarrow> Some (case lit (CHR '']'') r of Some r' \<Rightarrow> r' | None \<Rightarrow> r);
       Some (\<lparr>name = nm, type = ty, optional = (bracket = ''['')\<rparr>, r)
     }"

lemma length_dropWhile_le': "length (dropWhile P xs) \<le> length xs"
  by (induction xs) auto

lemma lit_length: "lit c s = Some r \<Longrightarrow> length r < length s"
  by (auto simp: lit_def split: list.splits if_splits)

lemma many1_length: "many1 P s = Some (a, r) \<Longrightarrow> length r < length s"
  by (cases s) (auto simp: many1_def split: if_splits intro: le_imp_less_Suc length_dropWhile_le')

lemma matchParam_length:
  assumes "matchParam s = Some (p, rest)"
  shows "length rest < length s"
proof -
  define r0 where "r0 = (case s of c # r \<Rightarrow> if c = CHR ''['' then r else s | [] \<Rightarrow> s)"
  define r1 where "r1 = dropWhile isSpace r0"
  from assms obtain r2 ty r3 r4 w2 r5 nm r6 where
    2: "lit (CHR 0x60) r1 = Some r2"
    and 3: "many1 (\<lambda>c. c \<noteq> CHR 0x60) r2 = Some (ty, r3)" and 4: "lit (CHR 0x60) r3 = Some r4"
    and 5: "many1 isSpace r4 = Some (w2, r5)" and 6: "many1 isWord r5 = Some (nm, r6)"
    and 8: "rest = (case lit (CHR '']'') (dropWhile isSpace r6) of Some r' \<Rightarrow> r'
                    | None \<Rightarrow> dropWhile isSpace r6)"
    unfolding matchParam_def r0_def r1_def many_def
    by (simp add: bind_eq_Some_conv split: list.splits if_splits) blast+
  have "length r0 \<le> length s" unfolding r0_def by (auto split: list.splits)
  moreover have "length r1 \<le> length r0" unfolding r1_def by (rule length_dropWhile_le')
  moreover have "length r2 < length r1" using 2 by (rule lit_length)
  moreover have "length r3 < length r2" using 3 by (rule many1_length)
  moreover have "length r4 < length r3" using 4 by (rule lit_length)
  moreover have "length r5 < length r4" using 5 by (rule many1_length)
  moreover have "length r6 < length r5" using 6 by (rule many1_length)
  moreover have "length rest \<le> length r6"
    using 8 lit_length[of "CHR '']''" "dropWhile isSpace r6"] length_dropWhile_le'[of isSpace r6]
    by (auto split: option.splits)
  ultimately show ?thesis by linarith
qed

text \<open>
  The loop \<open>while ((match = paramRegex.exec(rawParams)) !== null)\<close>: \<open>exec\<close> finds the
  leftmost match at or after \<open>lastIndex\<close> and moves \<open>lastIndex\<close> behind it. A match is
  never empty, so the loop ends.
\<close>

function execParams :: "string \<Rightarrow> ParsedParam list" where
  "execParams s =
     (case matchParam s of
        Some (p, rest) \<Rightarrow> p # execParams rest
      | None \<Rightarrow> (case s of [] \<Rightarrow> [] | c # s' \<Rightarrow> execParams s'))"
  by pat_completeness auto
termination
  by (relation "measure length") (auto dest: matchParam_length)

definition parseParameters :: "string \<Rightarrow> ParsedParam list" where
  "parseParameters rawParams = (if trim rawParams = [] then [] else execParams rawParams)"

subsection \<open>parseMarkdownFile\<close>

text \<open>\<open>content.split("\n")\<close>, \<open>lines.join(sep)\<close> and \<open>s.startsWith(p)\<close>.\<close>

fun splitOn :: "char \<Rightarrow> string \<Rightarrow> string list" where
  "splitOn sep [] = [[]]"
| "splitOn sep (c # cs) =
     (if c = sep then [] # splitOn sep cs
      else (case splitOn sep cs of l # ls \<Rightarrow> (c # l) # ls | [] \<Rightarrow> [[c]]))"

fun join :: "string \<Rightarrow> string list \<Rightarrow> string" where
  "join sep [] = []"
| "join sep [x] = x"
| "join sep (x # y # ys) = x @ sep @ join sep (y # ys)"

definition startsWith :: "string \<Rightarrow> string \<Rightarrow> bool" where
  "startsWith s p = (take (length p) s = p)"

text \<open>The test that ends a description at the next function heading.\<close>

definition headingLike :: "string \<Rightarrow> bool" where
  "headingLike line \<longleftrightarrow>
     (startsWith line ''###'' \<or> startsWith line ''####'') \<and> CHR 0x60 \<in> set line \<and> CHR ''('' \<in> set line"

text \<open>
  The inner loop that collects the description lines: it stops before a heading-like
  line and behind a horizontal rule. It returns the lines collected and the lines left.
\<close>

fun collectDescription :: "string list \<Rightarrow> string list \<times> string list" where
  "collectDescription [] = ([], [])"
| "collectDescription (nextLine # ls) =
     (if headingLike nextLine then ([], nextLine # ls)
      else if trim nextLine = ''---'' then ([], ls)
      else (case collectDescription ls of (d, r) \<Rightarrow> (nextLine # d, r)))"

lemma collectDescription_length:
  "collectDescription ls = (d, r) \<Longrightarrow> length r \<le> length ls"
  by (induction ls arbitrary: d r) (auto split: if_splits prod.splits)

definition paramStr :: "ParsedParam list \<Rightarrow> string" where
  "paramStr ps =
     join '', '' (map (\<lambda>p. (if optional p then ''['' else []) @ type p @ '' '' @ name p
                             @ (if optional p then '']'' else [])) ps)"

text \<open>
  The outer loop over the lines; \<open>i\<close> is the index of the current line and the list
  holds the lines from \<open>i\<close> on.
\<close>

function parseLoop :: "string \<Rightarrow> nat \<Rightarrow> string list \<Rightarrow> ParsedFunction list \<Rightarrow> ParsedFunction list" where
  "parseLoop fileName i [] functions = functions"
| "parseLoop fileName i (line # rest) functions =
     (if \<not> startsWith line ''###'' \<and> \<not> startsWith line ''####'' then
        parseLoop fileName (i + 1) rest functions
      else if CHR 0x60 \<notin> set line \<or> CHR ''('' \<notin> set line then
        parseLoop fileName (i + 1) rest functions
      else
        (case parseSignatureLine line of
           None \<Rightarrow> parseLoop fileName (i + 1) rest functions
         | Some (retType, tblName, funName, rawParams) \<Rightarrow>
             (case collectDescription rest of
                (descriptionLines, rest') \<Rightarrow>
                  parseLoop fileName (i + 1 + (length rest - length rest')) rest'
                    (functions @
                      [\<lparr>tableName = tblName, functionName = funName, returnType = retType,
                        parameters = parseParameters rawParams,
                        signature = tblName @ ''.'' @ funName @ ''('' @
                                      paramStr (parseParameters rawParams) @ '')'',
                        description = trim (join [CHR 0x0A] descriptionLines),
                        isOverload = (functions \<noteq> [] \<and> tableName (last functions) = tblName
                                        \<and> functionName (last functions) = funName),
                        sourceFile = fileName, lineNumber = i + 1\<rparr>]))))"
  by pat_completeness auto
termination
  by (relation "measure (\<lambda>(f, i, ls, fs). length ls)")
     (auto dest: collectDescription_length[OF sym] simp: less_Suc_eq_le)

text \<open>
  \<open>parseMarkdownFile\<close> of a file with base name \<open>fileName\<close> and text \<open>content\<close>.
\<close>

definition parseMarkdownFile :: "string \<Rightarrow> string \<Rightarrow> ParsedFunction list" where
  "parseMarkdownFile fileName content = parseLoop fileName 0 (splitOn (CHR 0x0A) content) []"

lemmas parse_defs = parseMarkdownFile_def startsWith_def parseSignatureLine_def hashes34_def
  many1_def many_def lit_def atEnd_def isSpace_def isWord_def headingLike_def trim_def
  parseParameters_def matchParam_def paramStr_def

text \<open>
  Claim C4, as amended. The heading of the claim has its parameter types unquoted, and
  the parameter pattern only recognises backtick-quoted types. With the types quoted,
  at heading depth 3 and 4, the line parses to table \<open>world\<close>, function \<open>spawnItem\<close>,
  return type \<open>EntityId\<close> and exactly two parameters, \<open>itemName\<close> optional and
  \<open>position\<close> required. With the types unquoted, as the claim writes them, table,
  function and return type are the same and no parameter is recognised.
\<close>

theorem spawnItem_heading_parsed:
  "parseMarkdownFile fileName ''#### `EntityId` world.spawnItem([`String` itemName], `Vec2F` position)'' =
     [\<lparr>tableName = ''world'', functionName = ''spawnItem'', returnType = ''EntityId'',
       parameters = [\<lparr>name = ''itemName'', type = ''String'', optional = True\<rparr>,
                     \<lparr>name = ''position'', type = ''Vec2F'', optional = False\<rparr>],
       signature = ''world.spawnItem([String itemName], Vec2F position)'',
       description = [], isOverload = False, sourceFile = fileName, lineNumber = 1\<rparr>]
   \<and> parseMarkdownFile fileName ''### `EntityId` world.spawnItem([`String` itemName], `Vec2F` position)'' =
     [\<lparr>tableName = ''world'', functionName = ''spawnItem'', returnType = ''EntityId'',
       parameters = [\<lparr>name = ''itemName'', type = ''String'', optional = True\<rparr>,
                     \<lparr>name = ''position'', type = ''Vec2F'', optional = False\<rparr>],
       signature = ''world.spawnItem([String itemName], Vec2F position)'',
       description = [], isOverload = False, sourceFile = fileName, lineNumber = 1\<rparr>]
   \<and> parseMarkdownFile fileName ''#### `EntityId` world.spawnItem([String itemName], Vec2F position)'' =
     [\<lparr>tableName = ''world'', functionName = ''spawnItem'', returnType = ''EntityId'',
       parameters = [], signature = ''world.spawnItem()'',
       description = [], isOverload = False, sourceFile = fileName, lineNumber = 1\<rparr>]"
  by (simp add: parse_defs)

text \<open>
  The heading exactly as the claim writes it: the signature line is recognised, and the
  parameter list has no element, not two.
\<close>

theorem spawnItem_unquoted_counterexample:
  "parseSignatureLine ''#### `EntityId` world.spawnItem([String itemName], Vec2F position)'' =
     Some (''EntityId'', ''world'', ''spawnItem'', ''[String itemName], Vec2F position'')
   \<and> parseSignatureLine ''### `EntityId` world.spawnItem([String itemName], Vec2F position)'' =
     Some (''EntityId'', ''world'', ''spawnItem'', ''[String itemName], Vec2F position'')
   \<and> parseParameters ''[String itemName], Vec2F position'' = []
   \<and> length (parseParameters ''[String itemName], Vec2F position'') \<noteq> 2"
  by (simp add: parse_defs)

section \<open>extract-lua-docs.ts: insertLuaData, merging overloads\<close>

text \<open>
  A JavaScript \<open>Map\<close> keeps its keys in insertion order: it is an association list in
  which \<open>set\<close> replaces the value of a key in place and appends a new key
  (\<open>AList.update\<close>), and \<open>get\<close> is \<open>map_of\<close>. \<open>tableMap\<close> groups the functions by
  table name.
\<close>

definition groupByTable :: "ParsedFunction list \<Rightarrow> (string \<times> ParsedFunction list) list" where
  "groupByTable allFunctions =
     fold (\<lambda>fn tableMap.
        AList.update (tableName fn) (nullish (map_of tableMap (tableName fn)) [] @ [fn]) tableMap)
       allFunctions []"

text \<open>The separator put before the description of an overload.\<close>

definition overloadLabel :: string where
  "overloadLabel = [CHR 0x0A, CHR 0x0A] @ ''**Overload:**'' @ [CHR 0x0A]"

text \<open>
  The body of \<open>if (fn.isOverload && mergedFunctions.has(fn.functionName))\<close>: the entry
  \<open>existing\<close> of the map is changed in place. \<open>if (fn.description)\<close> is false for the
  empty string.
\<close>

definition mergeOverload :: "ParsedFunction \<Rightarrow> ParsedFunction \<Rightarrow> ParsedFunction" where
  "mergeOverload existing fn =
     existing\<lparr>
       signature := signature existing @ [CHR 0x0A] @ signature fn,
       description := (if description fn \<noteq> [] then description existing @ overloadLabel @ description fn
                       else description existing),
       parameters := (if length (parameters fn) > length (parameters existing) then parameters fn
                      else parameters existing),
       returnType := (if length (parameters fn) > length (parameters existing) then returnType fn
                      else returnType existing)\<rparr>"

text \<open>One iteration of \<open>for (const fn of functions)\<close> over the functions of a table.\<close>

definition mergeStep ::
  "ParsedFunction \<Rightarrow> (string \<times> ParsedFunction) list \<Rightarrow> (string \<times> ParsedFunction) list" where
  "mergeStep fn mergedFunctions =
     (case (if isOverload fn then map_of mergedFunctions (functionName fn) else None) of
        Some existing \<Rightarrow> AList.update (functionName fn) (mergeOverload existing fn) mergedFunctions
      | None \<Rightarrow> AList.update (functionName fn) fn mergedFunctions)"

definition mergeFunctions :: "ParsedFunction list \<Rightarrow> (string \<times> ParsedFunction) list" where
  "mergeFunctions functions = fold mergeStep functions []"

text \<open>
  For every table, in the order of \<open>tableMap\<close>, the entries \<open>mergedFunctions.values()\<close>;
  the loop that follows writes each of them with one \<open>INSERT OR REPLACE\<close> into
  \<open>lua_functions\<close>, whose rows are unique in \<open>(table_id, name)\<close>.
\<close>

definition mergedByTable :: "ParsedFunction list \<Rightarrow> (string \<times> ParsedFunction list) list" where
  "mergedByTable allFunctions =
     map (\<lambda>(tbl, functions). (tbl, map snd (mergeFunctions functions))) (groupByTable allFunctions)"

subsection \<open>The overload flag set by the parser\<close>

definition sameFunction :: "ParsedFunction \<Rightarrow> ParsedFunction \<Rightarrow> bool" where
  "sameFunction p f \<longleftrightarrow> tableName p = tableName f \<and> functionName p = functionName f"

text \<open>
  \<open>overloadsMarked prev fs\<close>: every entry of \<open>fs\<close> is flagged exactly when the entry
  before it (\<open>prev\<close> for the first) has its table and function name.
\<close>

fun overloadsMarked :: "ParsedFunction option \<Rightarrow> ParsedFunction list \<Rightarrow> bool" where
  "overloadsMarked prev [] = True"
| "overloadsMarked prev (f # fs) =
     ((isOverload f \<longleftrightarrow> (case prev of None \<Rightarrow> False | Some p \<Rightarrow> sameFunction p f))
      \<and> overloadsMarked (Some f) fs)"

lemma overloadsMarked_snoc:
  "overloadsMarked prev (fs @ [f]) \<longleftrightarrow>
     overloadsMarked prev fs \<and>
     (isOverload f \<longleftrightarrow>
        (case (if fs = [] then prev else Some (last fs)) of None \<Rightarrow> False | Some p \<Rightarrow> sameFunction p f))"
  by (induction fs arbitrary: prev) auto

lemma parseLoop_overloadsMarked:
  "overloadsMarked None fns \<Longrightarrow> overloadsMarked None (parseLoop fileName i ls fns)"
proof (induction fileName i ls fns rule: parseLoop.induct)
  case (1 fileName i fns0)
  then show ?case by simp
next
  case (2 fileName i line rest fns0)
  show ?case
  proof (cases "\<not> startsWith line ''###'' \<and> \<not> startsWith line ''####''")
    case True
    with 2 show ?thesis by simp
  next
    case heading: False
    show ?thesis
    proof (cases "CHR 0x60 \<notin> set line \<or> CHR ''('' \<notin> set line")
      case True
      with 2 heading show ?thesis by simp
    next
      case ticks: False
      show ?thesis
      proof (cases "parseSignatureLine line")
        case None
        with 2 heading ticks show ?thesis by simp
      next
        case (Some parsed)
        obtain retType tblName funName rawParams where
          parsed: "parsed = (retType, tblName, funName, rawParams)" by (cases parsed) auto
        obtain descriptionLines rest' where
          cd: "collectDescription rest = (descriptionLines, rest')"
          by (cases "collectDescription rest") auto
        let ?f = "\<lparr>tableName = tblName, functionName = funName, returnType = retType,
                        parameters = parseParameters rawParams,
                        signature = tblName @ ''.'' @ funName @ ''('' @
                                      paramStr (parseParameters rawParams) @ '')'',
                        description = trim (join [CHR 0x0A] descriptionLines),
                        isOverload = (fns0 \<noteq> [] \<and> tableName (last fns0) = tblName
                                        \<and> functionName (last fns0) = funName),
                        sourceFile = fileName, lineNumber = i + 1\<rparr>"
        have "overloadsMarked None (fns0 @ [?f])"
          using "2.prems" by (auto simp: overloadsMarked_snoc sameFunction_def)
        from "2.IH"(4)[OF heading ticks Some[unfolded parsed] refl refl refl cd[symmetric] this]
        show ?thesis using heading ticks Some parsed cd by auto
      qed
    qed
  qed
qed

lemma overloadsMarked_adjacent:
  "overloadsMarked prev (before @ f1 # f2 # after) \<Longrightarrow> (isOverload f2 \<longleftrightarrow> sameFunction f1 f2)"
  by (induction before arbitrary: prev) auto

lemma parseMarkdownFile_adjacent:
  "parseMarkdownFile fileName content = before @ f1 # f2 # after \<Longrightarrow>
   (isOverload f2 \<longleftrightarrow> tableName f1 = tableName f2 \<and> functionName f1 = functionName f2)"
  using parseLoop_overloadsMarked[of "[]" fileName 0 "splitOn (CHR 0x0A) content"]
    overloadsMarked_adjacent[of None before f1 f2 after]
  by (simp add: parseMarkdownFile_def sameFunction_def)

subsection \<open>The merge\<close>

lemma mergeFunctions_snoc: "mergeFunctions (fs @ [f]) = mergeStep f (mergeFunctions fs)"
  by (simp add: mergeFunctions_def)

lemma mergeStep_lookup: "\<exists>e. map_of (mergeStep f m) (functionName f) = Some e"
  by (auto simp: mergeStep_def update_conv' split: option.splits)

lemma mergeStep_lookup_first:
  "\<not> isOverload f \<Longrightarrow> map_of (mergeStep f m) (functionName f) = Some f"
  by (simp add: mergeStep_def update_conv')

lemma mergeStep_distinct: "distinct (map fst m) \<Longrightarrow> distinct (map fst (mergeStep f m))"
  by (auto simp: mergeStep_def distinct_update split: option.splits)

lemma mergeFunctions_distinct: "distinct (map fst (mergeFunctions fs))"
proof (induction fs rule: rev_induct)
  case Nil
  show ?case by (simp add: mergeFunctions_def)
next
  case (snoc f fs)
  then show ?case by (simp add: mergeFunctions_snoc mergeStep_distinct)
qed

text \<open>
  \<open>main\<close> parses the files of a directory one after the other and hands the
  concatenation to \<open>insertLuaData\<close>: \<open>baseFunctions = baseFunctions.concat(functions)\<close>.
  A file is its base name and its text.
\<close>

definition parseFiles :: "(string \<times> string) list \<Rightarrow> ParsedFunction list" where
  "parseFiles files =
     fold (\<lambda>(fileName, content) allFunctions. allFunctions @ parseMarkdownFile fileName content) files []"

text \<open>
  A run is an entry \<open>f1\<close> followed by entries \<open>ovs\<close>. \<open>canonicalEntry f1 ovs\<close> is the entry
  whose parameter list and return type the specification makes canonical: reading the
  run from the left, an entry takes the place of the current one if and only if it has
  strictly more parameters. \<open>mergedRun f1 ovs\<close> is the record the specification describes
  for the run: \<open>f1\<close> with the signatures of \<open>ovs\<close> appended, each after a line feed, with
  the descriptions of \<open>ovs\<close> that are not empty appended, each after the overload label,
  and with the parameter list and the return type of the canonical entry.
\<close>

fun canonicalEntry :: "ParsedFunction \<Rightarrow> ParsedFunction list \<Rightarrow> ParsedFunction" where
  "canonicalEntry c [] = c"
| "canonicalEntry c (g # gs) =
     canonicalEntry (if length (parameters c) < length (parameters g) then g else c) gs"

definition mergedRun :: "ParsedFunction \<Rightarrow> ParsedFunction list \<Rightarrow> ParsedFunction" where
  "mergedRun f1 ovs =
     f1\<lparr>signature := signature f1 @ concat (map (\<lambda>g. CHR 0x0A # signature g) ovs),
        description := description f1 @
          concat (map (\<lambda>g. if description g = [] then []
                            else [CHR 0x0A, CHR 0x0A] @ ''**Overload:**'' @ [CHR 0x0A] @ description g) ovs),
        parameters := parameters (canonicalEntry f1 ovs),
        returnType := returnType (canonicalEntry f1 ovs)\<rparr>"

text \<open>
  \<open>overloadsFollow prev fs\<close>: every flagged entry of \<open>fs\<close> has the table and function
  name of the entry before it. It holds of the entries of several files put together,
  where the first entry of a file is never flagged.
\<close>

fun overloadsFollow :: "ParsedFunction option \<Rightarrow> ParsedFunction list \<Rightarrow> bool" where
  "overloadsFollow prev [] = True"
| "overloadsFollow prev (f # fs) =
     ((isOverload f \<longrightarrow> (case prev of None \<Rightarrow> False | Some p \<Rightarrow> sameFunction p f))
      \<and> overloadsFollow (Some f) fs)"

lemma overloadsMarked_follow_same: "overloadsMarked p fs \<Longrightarrow> overloadsFollow p fs"
  by (induction fs arbitrary: p) auto

lemma overloadsMarked_follow: "overloadsMarked None fs \<Longrightarrow> overloadsFollow prev fs"
proof (cases fs)
  case Nil
  then show ?thesis by simp
next
  case (Cons f rest)
  assume "overloadsMarked None fs"
  with Cons have "\<not> isOverload f" "overloadsMarked (Some f) rest" by auto
  with Cons show ?thesis by (simp add: overloadsMarked_follow_same)
qed

lemma overloadsFollow_append:
  "overloadsFollow prev xs \<Longrightarrow> (\<And>p. overloadsFollow p ys) \<Longrightarrow> overloadsFollow prev (xs @ ys)"
  by (induction xs arbitrary: prev) auto

lemma parseMarkdownFile_follow: "overloadsFollow prev (parseMarkdownFile fileName content)"
  using parseLoop_overloadsMarked[of "[]" fileName 0 "splitOn (CHR 0x0A) content"]
  by (auto simp: parseMarkdownFile_def intro: overloadsMarked_follow)

lemma parseFiles_concat:
  "parseFiles files = concat (map (\<lambda>(fileName, content). parseMarkdownFile fileName content) files)"
proof -
  have "fold (\<lambda>(fileName, content) allFunctions. allFunctions @ parseMarkdownFile fileName content) files acc
        = acc @ concat (map (\<lambda>(fileName, content). parseMarkdownFile fileName content) files)" for acc
    by (induction files arbitrary: acc) (auto split: prod.splits)
  then show ?thesis by (simp add: parseFiles_def)
qed

lemma parseFiles_follow: "overloadsFollow prev (parseFiles files)"
  unfolding parseFiles_concat
  by (induction files arbitrary: prev)
    (auto intro!: overloadsFollow_append parseMarkdownFile_follow)

lemma sameFunction_trans: "sameFunction a b \<Longrightarrow> sameFunction b c \<Longrightarrow> sameFunction a c"
  by (simp add: sameFunction_def)

lemma sameFunction_sym: "sameFunction a b \<Longrightarrow> sameFunction b a"
  by (simp add: sameFunction_def)

lemma overloadsFollow_tail:
  "overloadsFollow prev (pre @ f1 # rest) \<Longrightarrow> overloadsFollow (Some f1) rest"
  by (induction pre arbitrary: prev) auto

lemma run_sameFunction:
  "overloadsFollow (Some p) (ovs @ post) \<Longrightarrow> \<forall>g\<in>set ovs. isOverload g \<Longrightarrow>
   \<forall>g\<in>set ovs. sameFunction p g"
proof (induction ovs arbitrary: p)
  case Nil
  show ?case by simp
next
  case (Cons g gs)
  then have pg: "sameFunction p g" by simp
  from Cons have "\<forall>h\<in>set gs. sameFunction g h" by simp
  with pg show ?case by (auto intro: sameFunction_trans)
qed


subsection \<open>Grouping by table\<close>

text \<open>The group of a table holds the entries of the table, in their order.\<close>

lemma groupByTable_fold:
  "map_of (fold (\<lambda>fn tableMap.
        AList.update (tableName fn) (nullish (map_of tableMap (tableName fn)) [] @ [fn]) tableMap) fs acc) t =
   (if filter (\<lambda>f. tableName f = t) fs = [] then map_of acc t
    else Some (nullish (map_of acc t) [] @ filter (\<lambda>f. tableName f = t) fs))"
  by (induction fs arbitrary: acc) (auto simp: update_conv' nullish_def)

lemma groupByTable_lookup:
  "map_of (groupByTable fs) t =
   (if filter (\<lambda>f. tableName f = t) fs = [] then None else Some (filter (\<lambda>f. tableName f = t) fs))"
  by (simp only: groupByTable_def groupByTable_fold) (simp add: nullish_def)

lemma groupByTable_distinct: "distinct (map fst (groupByTable fs))"
proof -
  have "distinct (map fst acc) \<Longrightarrow> distinct (map fst (fold (\<lambda>fn tableMap.
        AList.update (tableName fn) (nullish (map_of tableMap (tableName fn)) [] @ [fn]) tableMap) fs acc))" for acc
    by (induction fs arbitrary: acc) (auto simp: distinct_update)
  then show ?thesis by (simp add: groupByTable_def)
qed

lemma mergedByTable_distinct: "distinct (map fst (mergedByTable fs))"
proof -
  have "map fst (mergedByTable fs) = map fst (groupByTable fs)"
    by (auto simp: mergedByTable_def)
  then show ?thesis by (simp add: groupByTable_distinct)
qed

lemma mergedByTable_lookup:
  "map_of (mergedByTable fs) t =
   (if filter (\<lambda>f. tableName f = t) fs = [] then None
    else Some (map snd (mergeFunctions (filter (\<lambda>f. tableName f = t) fs))))"
  unfolding mergedByTable_def
  by (simp add: map_of_map groupByTable_lookup)

subsection \<open>The record of a run\<close>

lemma mergeFunctions_append: "mergeFunctions (xs @ ys) = fold mergeStep ys (mergeFunctions xs)"
  by (simp add: mergeFunctions_def)

lemma mergeStep_other:
  "functionName h \<noteq> n \<Longrightarrow> map_of (mergeStep h m) n = map_of m n"
  by (auto simp: mergeStep_def update_conv' split: option.splits)

lemma mergeSteps_other:
  "\<forall>h\<in>set hs. functionName h \<noteq> n \<Longrightarrow> map_of (fold mergeStep hs m) n = map_of m n"
  by (induction hs arbitrary: m) (simp_all add: mergeStep_other)

lemma mergeSteps_overloads:
  "map_of m n = Some e \<Longrightarrow> \<forall>g\<in>set ovs. isOverload g \<and> functionName g = n \<Longrightarrow>
   map_of (fold mergeStep ovs m) n = Some (foldl mergeOverload e ovs)"
proof (induction ovs arbitrary: m e)
  case Nil
  then show ?case by simp
next
  case (Cons g gs)
  then have "map_of (mergeStep g m) n = Some (mergeOverload e g)"
    by (simp add: mergeStep_def update_conv')
  from Cons.IH[OF this] Cons.prems(2) show ?case by simp
qed

lemma canonical_params:
  "parameters e = parameters c \<Longrightarrow> returnType e = returnType c \<Longrightarrow>
   parameters (foldl mergeOverload e ovs) = parameters (canonicalEntry c ovs) \<and>
   returnType (foldl mergeOverload e ovs) = returnType (canonicalEntry c ovs)"
proof (induction ovs arbitrary: e c)
  case Nil
  then show ?case by simp
next
  case (Cons g gs)
  let ?c = "if length (parameters c) < length (parameters g) then g else c"
  have "parameters (mergeOverload e g) = parameters ?c" "returnType (mergeOverload e g) = returnType ?c"
    using Cons.prems by (simp_all add: mergeOverload_def)
  from Cons.IH[OF this] show ?case by simp
qed

lemma foldl_mergeOverload_fields:
  "signature (foldl mergeOverload e ovs) =
     signature e @ concat (map (\<lambda>g. CHR 0x0A # signature g) ovs)"
  "description (foldl mergeOverload e ovs) =
     description e @ concat (map (\<lambda>g. if description g = [] then []
                            else [CHR 0x0A, CHR 0x0A] @ ''**Overload:**'' @ [CHR 0x0A] @ description g) ovs)"
  "tableName (foldl mergeOverload e ovs) = tableName e"
  "functionName (foldl mergeOverload e ovs) = functionName e"
  "isOverload (foldl mergeOverload e ovs) = isOverload e"
  "sourceFile (foldl mergeOverload e ovs) = sourceFile e"
  "lineNumber (foldl mergeOverload e ovs) = lineNumber e"
  "ParsedFunction.more (foldl mergeOverload e ovs) = ParsedFunction.more e"
  by (induction ovs arbitrary: e; simp add: mergeOverload_def overloadLabel_def)+

lemma mergedRun_foldl: "foldl mergeOverload f1 ovs = mergedRun f1 ovs"
  using canonical_params[of f1 f1 ovs]
  by (intro ParsedFunction.equality) (simp_all add: mergedRun_def foldl_mergeOverload_fields)

lemma canonicalEntry_member: "canonicalEntry c gs \<in> set (c # gs)"
  by (induction gs arbitrary: c) auto

lemma canonicalEntry_greatest:
  "\<forall>g\<in>set (c # gs). length (parameters g) \<le> length (parameters (canonicalEntry c gs))"
proof (induction gs arbitrary: c)
  case Nil
  show ?case by simp
next
  case (Cons g gs)
  let ?c = "if length (parameters c) < length (parameters g) then g else c"
  from Cons[of ?c] show ?case by (auto split: if_splits)
qed

text \<open>Keys and records of the merge map agree, and a name has one record.\<close>

lemma mergeStep_keys:
  "\<forall>(k, v)\<in>set m. functionName v = k \<Longrightarrow> \<forall>(k, v)\<in>set (mergeStep f m). functionName v = k"
proof -
  assume inv: "\<forall>(k, v)\<in>set m. functionName v = k"
  have upd: "functionName v = k \<Longrightarrow> \<forall>(k', v')\<in>set (AList.update k v m). functionName v' = k'" for k v
    using inv by (induction m) (auto split: if_splits)
  show ?thesis
  proof (cases "if isOverload f then map_of m (functionName f) else None")
    case None
    then show ?thesis using upd[of f "functionName f"] by (simp add: mergeStep_def)
  next
    case (Some existing)
    then have "map_of m (functionName f) = Some existing" by (auto split: if_splits)
    then have "(functionName f, existing) \<in> set m" by (rule map_of_SomeD)
    with inv have "functionName existing = functionName f" by auto
    then have "functionName (mergeOverload existing f) = functionName f"
      by (simp add: mergeOverload_def)
    with Some show ?thesis using upd[of "mergeOverload existing f" "functionName f"]
      by (simp add: mergeStep_def)
  qed
qed

lemma mergeFunctions_keys: "\<forall>(k, v)\<in>set (mergeFunctions fs). functionName v = k"
proof (induction fs rule: rev_induct)
  case Nil
  show ?case by (simp add: mergeFunctions_def)
next
  case (snoc f fs)
  then show ?case by (simp add: mergeFunctions_snoc mergeStep_keys)
qed

lemma one_record:
  "distinct (map fst m) \<Longrightarrow> \<forall>(k, v)\<in>set m. key v = k \<Longrightarrow> map_of m n = Some r \<Longrightarrow>
   filter (\<lambda>v. key v = n) (map snd m) = [r]"
proof (induction m)
  case Nil
  then show ?case by simp
next
  case (Cons kv m)
  obtain k v where kv: "kv = (k, v)" by (cases kv)
  show ?case
  proof (cases "k = n")
    case True
    with Cons.prems kv have r: "v = r" and kn: "key v = n" by auto
    have "filter (\<lambda>v. key v = n) (map snd m) = []"
    proof (rule ccontr)
      assume "filter (\<lambda>v. key v = n) (map snd m) \<noteq> []"
      then obtain w where "w \<in> set (map snd m)" "key w = n"
        by (metis (mono_tags, lifting) filter_False)
      then obtain k' where "(k', w) \<in> set m" by auto
      with Cons.prems(2) \<open>key w = n\<close> have "(n, w) \<in> set m" by auto
      then have "n \<in> set (map fst m)" by force
      with Cons.prems(1) kv True show False by simp
    qed
    with r kn kv show ?thesis by simp
  next
    case False
    with Cons.prems kv have "key v \<noteq> n" "map_of m n = Some r" by auto
    with Cons kv show ?thesis by simp
  qed
qed

text \<open>
  Every parsed entry belongs to a last run of its name: an entry \<open>f1\<close> that is not
  flagged, the flagged entries \<open>ovs\<close> right after it, and no entry of that name after
  them.
\<close>

lemma overloadsFollow_snoc:
  "overloadsFollow prev (fs @ [f]) \<longleftrightarrow>
     overloadsFollow prev fs \<and>
     (isOverload f \<longrightarrow>
        (case (if fs = [] then prev else Some (last fs)) of None \<Rightarrow> False | Some p \<Rightarrow> sameFunction p f))"
  by (induction fs arbitrary: prev) auto

lemma last_run_list:
  "overloadsFollow None fs \<Longrightarrow> f \<in> set fs \<Longrightarrow>
   \<exists>pre f1 ovs post. fs = pre @ f1 # ovs @ post \<and> \<not> isOverload f1 \<and> (\<forall>g\<in>set ovs. isOverload g) \<and>
      (\<forall>g\<in>set post. \<not> sameFunction f1 g) \<and> sameFunction f1 f"
proof (induction fs arbitrary: f rule: rev_induct)
  case Nil
  then show ?case by simp
next
  case (snoc x fs)
  from snoc.prems(1) have fol: "overloadsFollow None fs"
    and flag: "isOverload x \<Longrightarrow> fs \<noteq> [] \<and> sameFunction (last fs) x"
    by (auto simp: overloadsFollow_snoc split: if_splits)
  show ?case
  proof (cases "sameFunction x f")
    case same: True
    show ?thesis
    proof (cases "isOverload x")
      case False
      have "fs @ [x] = fs @ x # [] @ []" by simp
      with False same show ?thesis by (metis empty_iff list.set(1))
    next
      case True
      with flag have ne: "fs \<noteq> []" and ly: "sameFunction (last fs) x" by simp_all
      from ne have "last fs \<in> set fs" by simp
      from snoc.IH[OF fol this] obtain pre f1 ovs post where
        d: "fs = pre @ f1 # ovs @ post" and nf: "\<not> isOverload f1"
        and ov: "\<forall>g\<in>set ovs. isOverload g" and po: "\<forall>g\<in>set post. \<not> sameFunction f1 g"
        and sl: "sameFunction f1 (last fs)" by blast
      have "post = []"
      proof (rule ccontr)
        assume "post \<noteq> []"
        with d have "last fs \<in> set post" by simp
        with po sl show False by blast
      qed
      with d have "fs @ [x] = pre @ f1 # (ovs @ [x]) @ []" by simp
      moreover have "\<forall>g\<in>set (ovs @ [x]). isOverload g" using ov True by simp
      moreover have "sameFunction f1 f" using sl ly same by (blast intro: sameFunction_trans)
      ultimately show ?thesis using nf by (metis empty_iff list.set(1))
    qed
  next
    case other: False
    with snoc.prems(2) have "f \<in> set fs" by (auto simp: sameFunction_def)
    from snoc.IH[OF fol this] obtain pre f1 ovs post where
      d: "fs = pre @ f1 # ovs @ post" and nf: "\<not> isOverload f1"
      and ov: "\<forall>g\<in>set ovs. isOverload g" and po: "\<forall>g\<in>set post. \<not> sameFunction f1 g"
      and sf: "sameFunction f1 f" by blast
    have "\<not> sameFunction f1 x" using sf other by (auto simp: sameFunction_def)
    with po have "\<forall>g\<in>set (post @ [x]). \<not> sameFunction f1 g" by simp
    moreover from d have "fs @ [x] = pre @ f1 # ovs @ (post @ [x])" by simp
    ultimately show ?thesis using nf ov sf by blast
  qed
qed

lemma last_run_exists:
  "f \<in> set (parseFiles files) \<Longrightarrow>
   \<exists>pre f1 ovs post. parseFiles files = pre @ f1 # ovs @ post \<and> \<not> isOverload f1 \<and>
      (\<forall>g\<in>set ovs. isOverload g) \<and> (\<forall>g\<in>set post. \<not> sameFunction f1 g) \<and> sameFunction f1 f"
  using last_run_list[OF parseFiles_follow] .

text \<open>The table of \<open>f1\<close> keeps one record of that name, the merged run.\<close>

lemma run_record:
  assumes dec: "parseFiles files = pre @ f1 # ovs @ post"
    and nf: "\<not> isOverload f1"
    and ov: "\<forall>g\<in>set ovs. isOverload g"
    and po: "\<forall>g\<in>set post. \<not> sameFunction f1 g"
  shows "\<forall>g\<in>set ovs. sameFunction f1 g"
    and "\<exists>fns. map_of (mergedByTable (parseFiles files)) (tableName f1) = Some fns \<and>
           filter (\<lambda>r. functionName r = functionName f1) fns = [mergedRun f1 ovs]"
proof -
  let ?t = "tableName f1" and ?n = "functionName f1"
  let ?P = "\<lambda>f. tableName f = ?t"
  have "overloadsFollow None (pre @ f1 # ovs @ post)"
    using parseFiles_follow[of None files] dec by simp
  then have "overloadsFollow (Some f1) (ovs @ post)" by (rule overloadsFollow_tail)
  then show same: "\<forall>g\<in>set ovs. sameFunction f1 g" using ov by (rule run_sameFunction)
  then have fo: "filter ?P ovs = ovs" by (auto simp: sameFunction_def intro!: filter_True)
  have G: "filter ?P (parseFiles files) = (filter ?P pre @ [f1]) @ ovs @ filter ?P post"
    using dec fo by simp
  let ?m1 = "mergeFunctions (filter ?P pre @ [f1])"
  let ?m2 = "fold mergeStep ovs ?m1"
  let ?m3 = "fold mergeStep (filter ?P post) ?m2"
  have m3: "mergeFunctions (filter ?P (parseFiles files)) = ?m3"
    unfolding G by (simp only: mergeFunctions_append fold_append comp_apply)
  have 1: "map_of ?m1 ?n = Some f1"
    using nf by (simp add: mergeFunctions_snoc mergeStep_lookup_first)
  have "\<forall>g\<in>set ovs. isOverload g \<and> functionName g = ?n"
    using ov same by (auto simp: sameFunction_def)
  with 1 have 2: "map_of ?m2 ?n = Some (foldl mergeOverload f1 ovs)"
    by (rule mergeSteps_overloads)
  have "\<forall>h\<in>set (filter ?P post). functionName h \<noteq> ?n"
    using po by (auto simp: sameFunction_def)
  then have "map_of ?m3 ?n = map_of ?m2 ?n" by (rule mergeSteps_other)
  with 2 have 3: "map_of ?m3 ?n = Some (mergedRun f1 ovs)" by (simp add: mergedRun_foldl)
  have d: "distinct (map fst ?m3)" using mergeFunctions_distinct[of "filter ?P (parseFiles files)"]
    unfolding m3 .
  have k: "\<forall>(k, v)\<in>set ?m3. functionName v = k"
    using mergeFunctions_keys[of "filter ?P (parseFiles files)"] unfolding m3 .
  have one: "filter (\<lambda>r. functionName r = ?n) (map snd ?m3) = [mergedRun f1 ovs]"
    using d k 3 by (rule one_record)
  have ne: "filter ?P (parseFiles files) \<noteq> []" unfolding G by simp
  have "map_of (mergedByTable (parseFiles files)) ?t = Some (map snd ?m3)"
    using ne by (simp only: mergedByTable_lookup m3 if_False)
  with one show "\<exists>fns. map_of (mergedByTable (parseFiles files)) (tableName f1) = Some fns \<and>
           filter (\<lambda>r. functionName r = functionName f1) fns = [mergedRun f1 ovs]"
    by blast
qed

lemma canonicalEntry_snoc:
  "canonicalEntry c (gs @ [g]) =
     (if length (parameters (canonicalEntry c gs)) < length (parameters g) then g
      else canonicalEntry c gs)"
  by (induction gs arbitrary: c) simp_all

lemma first_entry_not_flagged:
  "parseMarkdownFile fileName content = g # rest \<Longrightarrow> \<not> isOverload g"
  using parseLoop_overloadsMarked[of "[]" fileName 0 "splitOn (CHR 0x0A) content"]
  by (simp add: parseMarkdownFile_def)

text \<open>The canonical entry is the first entry of the run with the greatest number of parameters.\<close>

lemma canonicalEntry_first:
  "\<exists>xs ys. c # gs = xs @ canonicalEntry c gs # ys \<and>
     (\<forall>g\<in>set xs. length (parameters g) < length (parameters (canonicalEntry c gs)))"
proof (induction gs arbitrary: c)
  case Nil
  have "[c] = [] @ canonicalEntry c [] # []" by simp
  then show ?case by (metis empty_iff list.set(1))
next
  case (Cons g gs)
  define c2 where "c2 = (if length (parameters c) < length (parameters g) then g else c)"
  define r where "r = canonicalEntry c (g # gs)"
  have r: "r = canonicalEntry c2 gs" by (simp add: r_def c2_def)
  from Cons[of c2] obtain xs ys where
    d: "c2 # gs = xs @ r # ys" and lt: "\<forall>h\<in>set xs. length (parameters h) < length (parameters r)"
    unfolding r by blast
  have ge: "length (parameters c2) \<le> length (parameters r)"
    using canonicalEntry_greatest[of c2 gs] unfolding r by simp
  have "\<exists>xs ys. c # g # gs = xs @ r # ys \<and> (\<forall>h\<in>set xs. length (parameters h) < length (parameters r))"
  proof (cases "length (parameters c) < length (parameters g)")
    case True
    then have c2: "c2 = g" by (simp add: c2_def)
    from d have "c # g # gs = (c # xs) @ r # ys" unfolding c2 by simp
    moreover have "\<forall>h\<in>set (c # xs). length (parameters h) < length (parameters r)"
      using lt ge True unfolding c2 by auto
    ultimately show ?thesis by blast
  next
    case False
    then have c2: "c2 = c" by (simp add: c2_def)
    from d have d': "c # gs = xs @ r # ys" unfolding c2 .
    show ?thesis
    proof (cases xs)
      case Nil
      with d' have "c # g # gs = [] @ r # (g # gs)" by simp
      then show ?thesis by (metis empty_iff list.set(1))
    next
      case (Cons x xs')
      with d' have x: "x = c" and g: "gs = xs' @ r # ys" by simp_all
      have "c # g # gs = (c # g # xs') @ r # ys" by (subst g) simp
      moreover have "\<forall>h\<in>set (c # g # xs'). length (parameters h) < length (parameters r)"
        using lt Cons x False by auto
      ultimately show ?thesis by blast
    qed
  qed
  then show ?case unfolding r_def .
qed

text \<open>
  Claim C2, as amended. An entry is flagged as an overload exactly when it immediately
  follows, in its file, an entry with the same table and function name; the first entry
  of a file is never flagged. Every name that occurs has a last run among the entries of
  all files: an entry \<open>f1\<close> that is not flagged, the flagged entries \<open>ovs\<close> right after
  it, and no entry of the name after them. For such a run the entries of \<open>ovs\<close> have the
  name of \<open>f1\<close>, and at the end of the merge the table of \<open>f1\<close> holds exactly one record
  of that name: \<open>f1\<close> with the signatures of \<open>ovs\<close> appended in order, each after a line
  feed; with every description of \<open>ovs\<close> that is not empty appended after the overload
  label, an empty one adding nothing; and with the parameter list and the return type of
  the canonical entry of the run. The canonical entry is the first entry of the run with
  the greatest number of parameters: reading the run from the left, an entry replaces
  the current canonical one if and only if it has strictly more parameters. In
  particular, when the run is a one-parameter entry followed by a three-parameter entry,
  the record has the three parameters and the return type of the second.
\<close>

theorem overload_merged:
  assumes "parseFiles files = pre @ f1 # ovs @ post"
    and "\<not> isOverload f1"
    and "\<forall>g\<in>set ovs. isOverload g"
    and "\<forall>g\<in>set post. \<not> sameFunction f1 g"
  shows
    "(\<forall>fileName content before g1 g2 after.
        parseMarkdownFile fileName content = before @ g1 # g2 # after \<longrightarrow>
        (isOverload g2 \<longleftrightarrow> tableName g1 = tableName g2 \<and> functionName g1 = functionName g2))
     \<and> (\<forall>fileName content g rest. parseMarkdownFile fileName content = g # rest \<longrightarrow> \<not> isOverload g)
     \<and> (\<forall>g\<in>set ovs. tableName g = tableName f1 \<and> functionName g = functionName f1)
     \<and> distinct (map fst (mergedByTable (parseFiles files)))
     \<and> (\<exists>fns. map_of (mergedByTable (parseFiles files)) (tableName f1) = Some fns \<and>
           filter (\<lambda>r. functionName r = functionName f1) fns =
             [f1\<lparr>signature := signature f1 @ concat (map (\<lambda>g. CHR 0x0A # signature g) ovs),
                 description := description f1 @
                   concat (map (\<lambda>g. if description g = [] then []
                                     else [CHR 0x0A, CHR 0x0A] @ ''**Overload:**'' @ [CHR 0x0A] @
                                          description g) ovs),
                 parameters := parameters (canonicalEntry f1 ovs),
                 returnType := returnType (canonicalEntry f1 ovs)\<rparr>])
     \<and> (\<forall>g\<in>set (f1 # ovs). length (parameters g) \<le> length (parameters (canonicalEntry f1 ovs)))
     \<and> (\<exists>xs ys. f1 # ovs = xs @ canonicalEntry f1 ovs # ys \<and>
           (\<forall>g\<in>set xs. length (parameters g) < length (parameters (canonicalEntry f1 ovs))))
     \<and> (\<forall>gs g. canonicalEntry f1 (gs @ [g]) =
           (if length (parameters (canonicalEntry f1 gs)) < length (parameters g) then g
            else canonicalEntry f1 gs))
     \<and> (\<forall>f2. ovs = [f2] \<and> length (parameters f1) = 1 \<and> length (parameters f2) = 3 \<longrightarrow>
           parameters (canonicalEntry f1 ovs) = parameters f2 \<and>
           returnType (canonicalEntry f1 ovs) = returnType f2)
     \<and> (\<forall>f\<in>set (parseFiles files).
           \<exists>pre' f1' ovs' post'. parseFiles files = pre' @ f1' # ovs' @ post' \<and> \<not> isOverload f1' \<and>
             (\<forall>g\<in>set ovs'. isOverload g) \<and> (\<forall>g\<in>set post'. \<not> sameFunction f1' g) \<and>
             sameFunction f1' f)"
proof -
  have flag: "\<forall>fileName content before g1 g2 after.
        parseMarkdownFile fileName content = before @ g1 # g2 # after \<longrightarrow>
        (isOverload g2 \<longleftrightarrow> tableName g1 = tableName g2 \<and> functionName g1 = functionName g2)"
    using parseMarkdownFile_adjacent by blast
  have head: "\<forall>fileName content g rest. parseMarkdownFile fileName content = g # rest \<longrightarrow> \<not> isOverload g"
    using first_entry_not_flagged by blast
  have same: "\<forall>g\<in>set ovs. tableName g = tableName f1 \<and> functionName g = functionName f1"
    using run_record(1)[OF assms] by (auto simp: sameFunction_def)
  have dist: "distinct (map fst (mergedByTable (parseFiles files)))"
    by (rule mergedByTable_distinct)
  have rec: "\<exists>fns. map_of (mergedByTable (parseFiles files)) (tableName f1) = Some fns \<and>
           filter (\<lambda>r. functionName r = functionName f1) fns =
             [f1\<lparr>signature := signature f1 @ concat (map (\<lambda>g. CHR 0x0A # signature g) ovs),
                 description := description f1 @
                   concat (map (\<lambda>g. if description g = [] then []
                                     else [CHR 0x0A, CHR 0x0A] @ ''**Overload:**'' @ [CHR 0x0A] @
                                          description g) ovs),
                 parameters := parameters (canonicalEntry f1 ovs),
                 returnType := returnType (canonicalEntry f1 ovs)\<rparr>]"
    using run_record(2)[OF assms] unfolding mergedRun_def .
  have great: "\<forall>g\<in>set (f1 # ovs). length (parameters g) \<le> length (parameters (canonicalEntry f1 ovs))"
    by (rule canonicalEntry_greatest)
  have first: "\<exists>xs ys. f1 # ovs = xs @ canonicalEntry f1 ovs # ys \<and>
           (\<forall>g\<in>set xs. length (parameters g) < length (parameters (canonicalEntry f1 ovs)))"
    by (rule canonicalEntry_first)
  have step: "\<forall>gs g. canonicalEntry f1 (gs @ [g]) =
           (if length (parameters (canonicalEntry f1 gs)) < length (parameters g) then g
            else canonicalEntry f1 gs)"
    by (intro allI canonicalEntry_snoc)
  have two: "\<forall>f2. ovs = [f2] \<and> length (parameters f1) = 1 \<and> length (parameters f2) = 3 \<longrightarrow>
           parameters (canonicalEntry f1 ovs) = parameters f2 \<and>
           returnType (canonicalEntry f1 ovs) = returnType f2"
    by simp
  have runs: "\<forall>f\<in>set (parseFiles files).
           \<exists>pre' f1' ovs' post'. parseFiles files = pre' @ f1' # ovs' @ post' \<and> \<not> isOverload f1' \<and>
             (\<forall>g\<in>set ovs'. isOverload g) \<and> (\<forall>g\<in>set post'. \<not> sameFunction f1' g) \<and>
             sameFunction f1' f"
    using last_run_exists by blast
  from flag head same dist rec great first step two runs show ?thesis by (intro conjI)
qed

text \<open>
  The witness: a one-parameter signature, a three-parameter signature of the same
  function, and another function after them.
\<close>

definition runDoc :: string where
  "runDoc = join [CHR 0x0A]
     [''#### `Json` root.assetJson(`String` path)'',
      ''Returns the asset.'',
      ''#### `Json` root.assetJson(`String` path, `Json` default, `Bool` strict)'',
      ''Falls back to the default.'',
      ''#### `String` root.assetOrigin(`String` path)'']"

definition assetJson1 :: ParsedFunction where
  "assetJson1 =
     \<lparr>tableName = ''root'', functionName = ''assetJson'', returnType = ''Json'',
      parameters = [\<lparr>name = ''path'', type = ''String'', optional = False\<rparr>],
      signature = ''root.assetJson(String path)'',
      description = ''Returns the asset.'', isOverload = False,
      sourceFile = ''root.md'', lineNumber = 1\<rparr>"

definition assetJson3 :: ParsedFunction where
  "assetJson3 =
     \<lparr>tableName = ''root'', functionName = ''assetJson'', returnType = ''Json'',
      parameters = [\<lparr>name = ''path'', type = ''String'', optional = False\<rparr>,
                    \<lparr>name = ''default'', type = ''Json'', optional = False\<rparr>,
                    \<lparr>name = ''strict'', type = ''Bool'', optional = False\<rparr>],
      signature = ''root.assetJson(String path, Json default, Bool strict)'',
      description = ''Falls back to the default.'', isOverload = True,
      sourceFile = ''root.md'', lineNumber = 3\<rparr>"

definition assetOrigin :: ParsedFunction where
  "assetOrigin =
     \<lparr>tableName = ''root'', functionName = ''assetOrigin'', returnType = ''String'',
      parameters = [\<lparr>name = ''path'', type = ''String'', optional = False\<rparr>],
      signature = ''root.assetOrigin(String path)'',
      description = [], isOverload = False,
      sourceFile = ''root.md'', lineNumber = 5\<rparr>"

definition mergedAssetJson :: ParsedFunction where
  "mergedAssetJson =
     \<lparr>tableName = ''root'', functionName = ''assetJson'', returnType = ''Json'',
      parameters = [\<lparr>name = ''path'', type = ''String'', optional = False\<rparr>,
                    \<lparr>name = ''default'', type = ''Json'', optional = False\<rparr>,
                    \<lparr>name = ''strict'', type = ''Bool'', optional = False\<rparr>],
      signature = ''root.assetJson(String path)'' @ [CHR 0x0A] @
                  ''root.assetJson(String path, Json default, Bool strict)'',
      description = ''Returns the asset.'' @ [CHR 0x0A, CHR 0x0A] @ ''**Overload:**'' @ [CHR 0x0A] @
                    ''Falls back to the default.'',
      isOverload = False, sourceFile = ''root.md'', lineNumber = 1\<rparr>"

lemma runDoc_parsed: "parseFiles [(''root.md'', runDoc)] = [] @ assetJson1 # [assetJson3] @ [assetOrigin]"
  by (simp add: parseFiles_def parse_defs runDoc_def assetJson1_def assetJson3_def assetOrigin_def)

theorem overload_merged_witness:
  "parseFiles [(''root.md'', runDoc)] = [assetJson1, assetJson3, assetOrigin] \<and>
   \<not> isOverload assetJson1 \<and> isOverload assetJson3 \<and> \<not> sameFunction assetJson1 assetOrigin \<and>
   (\<exists>fns. map_of (mergedByTable (parseFiles [(''root.md'', runDoc)])) ''root'' = Some fns \<and>
      filter (\<lambda>r. functionName r = ''assetJson'') fns = [mergedAssetJson]) \<and>
   length (parameters mergedAssetJson) = 3"
proof -
  have nf: "\<not> isOverload assetJson1" by (simp add: assetJson1_def)
  have ov: "\<forall>g\<in>set [assetJson3]. isOverload g" by (simp add: assetJson3_def)
  have po: "\<forall>g\<in>set [assetOrigin]. \<not> sameFunction assetJson1 g"
    by (simp add: sameFunction_def assetJson1_def assetOrigin_def)
  note run = overload_merged[OF runDoc_parsed nf ov po]
  note rec = run[THEN conjunct2, THEN conjunct2, THEN conjunct2, THEN conjunct2, THEN conjunct1]
  have m: "assetJson1\<lparr>signature := signature assetJson1 @ concat (map (\<lambda>g. CHR 0x0A # signature g) [assetJson3]),
                 description := description assetJson1 @
                   concat (map (\<lambda>g. if description g = [] then []
                                     else [CHR 0x0A, CHR 0x0A] @ ''**Overload:**'' @ [CHR 0x0A] @
                                          description g) [assetJson3]),
                 parameters := parameters (canonicalEntry assetJson1 [assetJson3]),
                 returnType := returnType (canonicalEntry assetJson1 [assetJson3])\<rparr> = mergedAssetJson"
    by (simp add: assetJson1_def assetJson3_def mergedAssetJson_def)
  have t: "tableName assetJson1 = ''root''" "functionName assetJson1 = ''assetJson''"
    by (simp_all add: assetJson1_def)
  from rec have r: "\<exists>fns. map_of (mergedByTable (parseFiles [(''root.md'', runDoc)])) ''root'' = Some fns \<and>
      filter (\<lambda>r. functionName r = ''assetJson'') fns = [mergedAssetJson]"
    unfolding m t .
  have p: "parseFiles [(''root.md'', runDoc)] = [assetJson1, assetJson3, assetOrigin]"
    using runDoc_parsed by simp
  have o: "isOverload assetJson3" "\<not> sameFunction assetJson1 assetOrigin" using ov po by simp_all
  have l: "length (parameters mergedAssetJson) = 3" by (simp add: mergedAssetJson_def)
  from p nf o r l show ?thesis by (intro conjI)
qed

text \<open>
  Three more documents. An entry of the name that comes later and does not follow an
  entry of the name starts a new record, which replaces the merged one. A run of 5, 1
  and 3 parameters keeps the 5 parameters and the return type of its first entry. The
  first entry of a file is not flagged, so it is not merged with the last entry of the
  file before, whose record it replaces.
\<close>

definition replacedDoc :: string where
  "replacedDoc = join [CHR 0x0A]
     [''#### `Json` root.f(`String` a)'',
      ''#### `Json` root.f(`String` a, `Json` b, `Bool` c)'',
      ''#### `Json` root.g()'',
      ''#### `Json` root.f()'',
      ''late'']"

definition greatestFirstDoc :: string where
  "greatestFirstDoc = join [CHR 0x0A]
     [''#### `A` root.f(`T` a, `T` b, `T` c, `T` d, `T` e)'',
      ''#### `B` root.f(`T` a)'',
      ''#### `C` root.f(`T` a, `T` b, `T` c)'']"

lemma later_entry_replaces:
  "map (\<lambda>(tbl, fns). (tbl, map (\<lambda>f. (functionName f, length (parameters f), signature f, description f)) fns))
     (mergedByTable (parseFiles [(''root.md'', replacedDoc)])) =
     [(''root'', [(''f'', 0, ''root.f()'', ''late''), (''g'', 0, ''root.g()'', [])])]"
  by (simp add: parseFiles_def parse_defs replacedDoc_def mergedByTable_def groupByTable_def
      mergeFunctions_def mergeStep_def mergeOverload_def nullish_def)

lemma greatest_first_entry_kept:
  "map (\<lambda>(tbl, fns). (tbl, map (\<lambda>f. (functionName f, length (parameters f), returnType f)) fns))
     (mergedByTable (parseFiles [(''root.md'', greatestFirstDoc)])) =
     [(''root'', [(''f'', 5, ''A'')])]"
  by (simp add: parseFiles_def parse_defs greatestFirstDoc_def mergedByTable_def groupByTable_def
      mergeFunctions_def mergeStep_def mergeOverload_def nullish_def)

lemma first_entry_of_a_file_not_flagged:
  "map (\<lambda>(tbl, fns). (tbl, map (\<lambda>f. (functionName f, signature f)) fns))
     (mergedByTable (parseFiles [(''a.md'', ''#### `Json` root.f(`String` a)''),
                                 (''b.md'', ''#### `Json` root.f(`String` a, `Json` b)'')])) =
     [(''root'', [(''f'', ''root.f(String a, Json b)'')])]"
  by (simp add: parseFiles_def parse_defs mergedByTable_def groupByTable_def
      mergeFunctions_def mergeStep_def mergeOverload_def nullish_def)

text \<open>
  A one-parameter signature with a description, followed by a three-parameter signature
  of the same function that has no description.
\<close>

definition bareOverloadDoc :: string where
  "bareOverloadDoc = join [CHR 0x0A]
     [''#### `Json` root.assetJson(`String` path)'',
      ''Returns the asset.'',
      ''#### `Json` root.assetJson(`String` path, `Json` default, `Bool` strict)'']"

text \<open>
  The claim as it is written fails where the later entry has no description: the
  three-parameter signature of \<open>bareOverloadDoc\<close> is flagged and merged, and the stored
  description stays \<open>Returns the asset.\<close>, without the overload label the concatenation
  of the two descriptions under a label would end with.
\<close>

theorem overload_description_counterexample:
  "map (\<lambda>f. (tableName f, functionName f, isOverload f, description f))
     (parseMarkdownFile ''root.md'' bareOverloadDoc) =
     [(''root'', ''assetJson'', False, ''Returns the asset.''), (''root'', ''assetJson'', True, [])] \<and>
   map (\<lambda>(tbl, fns). (tbl, map description fns))
     (mergedByTable (parseMarkdownFile ''root.md'' bareOverloadDoc)) = [(''root'', [''Returns the asset.''])] \<and>
   ''Returns the asset.'' \<noteq> ''Returns the asset.'' @ overloadLabel @ []"
  by (simp add: parse_defs bareOverloadDoc_def mergedByTable_def groupByTable_def mergeFunctions_def
      mergeStep_def mergeOverload_def nullish_def overloadLabel_def)

section \<open>extract-openstarbound.ts: extractFieldsFromFile\<close>

record ExtractedField =
  fieldName :: string
  type :: string
  defaultValue :: "string option"
  optional :: bool
  sourceFile :: string
  lineNumber :: nat
  "context" :: string

text \<open>The two type tables, in the order of their entries.\<close>

definition GETTER_TYPE_MAP :: "(string \<times> string) list" where
  "GETTER_TYPE_MAP =
     [(''String'', ''String''), (''Bool'', ''Bool''), (''Float'', ''Float''), (''Double'', ''Float''),
      (''Int'', ''Int''), (''UInt'', ''UInt''), (''Array'', ''Array''), (''Object'', ''Object'')]"

definition CONVERTER_TYPE_MAP :: "(string \<times> string) list" where
  "CONVERTER_TYPE_MAP =
     [(''jsonToVec2F'', ''Vec2F''), (''jsonToVec2I'', ''Vec2I''), (''jsonToVec2U'', ''Vec2U''),
      (''jsonToVec3B'', ''Vec3B''), (''jsonToVec4B'', ''Vec4B''), (''jsonToColor'', ''Color''),
      (''jsonToRectF'', ''RectF''), (''jsonToPolyF'', ''PolyF''),
      (''jsonToStringList'', ''String[]''), (''jsonToStringSet'', ''StringSet''),
      (''jsonToWeightedPool'', ''WeightedPool'')]"

subsection \<open>The patterns\<close>

text \<open>
  \<open>lits p\<close> matches the literal text \<open>p\<close>; \<open>oneOf alts\<close> an alternation of literal
  words (no word of the alternations below is the beginning of another, so at most one
  alternative matches); \<open>includes_str s sub\<close> is \<open>s.includes(sub)\<close> and
  \<open>substring s a b\<close> is \<open>s.substring(a, b)\<close> for \<open>a \<le> b\<close> (a negative start, clamped to
  0 by JavaScript, is a truncated subtraction here).
\<close>

definition lits :: "string \<Rightarrow> string \<Rightarrow> string option" where
  "lits p s = (if startsWith s p then Some (drop (length p) s) else None)"

fun oneOf :: "string list \<Rightarrow> string \<Rightarrow> (string \<times> string) option" where
  "oneOf [] s = None"
| "oneOf (a # alts) s = (if startsWith s a then Some (a, drop (length a) s) else oneOf alts s)"

fun includes_str :: "string \<Rightarrow> string \<Rightarrow> bool" where
  "includes_str [] sub = (sub = [])"
| "includes_str (c # s) sub = (startsWith (c # s) sub \<or> includes_str s sub)"

definition substring :: "string \<Rightarrow> nat \<Rightarrow> nat \<Rightarrow> string" where
  "substring s a b = take (b - a) (drop a s)"

text \<open>
  The loop \<open>while ((match = regex.exec(content)) !== null)\<close> of a global pattern, given
  the matcher of the pattern at one position: the list of the matches, each with
  \<open>match.index\<close>, the length of \<open>match[0]\<close> and the captured groups. Every pattern
  starts with a literal, so no match is empty; the guard on the length only serves the
  termination proof.
\<close>

function execAll :: "(string \<Rightarrow> ('a \<times> string) option) \<Rightarrow> nat \<Rightarrow> string \<Rightarrow> (nat \<times> nat \<times> 'a) list" where
  "execAll m i s =
     (case m s of
        Some (caps, rest) \<Rightarrow>
          if length rest < length s then
            (i, length s - length rest, caps) # execAll m (i + (length s - length rest)) rest
          else []
      | None \<Rightarrow> (case s of [] \<Rightarrow> [] | c # s' \<Rightarrow> execAll m (i + 1) s'))"
  by pat_completeness auto
termination
  by (relation "measure (\<lambda>(m, i, s). length s)") auto

text \<open>\<^verbatim>\<open>\s*\(\s*"([^"]+)"\<close>, the opening of a call with a literal field name.\<close>

definition quotedName :: "string \<Rightarrow> (string \<times> string) option" where
  "quotedName s =
     do {
       (_, r) \<leftarrow> Some (many isSpace s);
       r \<leftarrow> lit (CHR ''('') r;
       (_, r) \<leftarrow> Some (many isSpace r);
       r \<leftarrow> lit (CHR 0x22) r;
       (fName, r) \<leftarrow> many1 (\<lambda>c. c \<noteq> CHR 0x22) r;
       r \<leftarrow> lit (CHR 0x22) r;
       Some (fName, r)
     }"

text \<open>
  \<^verbatim>\<open>(?:\s*,\s*([^)]*))?\)\<close>: a default expression up to the closing parenthesis, or the
  closing parenthesis at once. The captured default is \<open>None\<close> when the group did not
  take part in the match.
\<close>

definition optionalDefault :: "string \<Rightarrow> (string option \<times> string) option" where
  "optionalDefault s =
     (case do {
          (_, r) \<leftarrow> Some (many isSpace s);
          r \<leftarrow> lit (CHR '','') r;
          (_, r) \<leftarrow> Some (many isSpace r);
          (dv, r) \<leftarrow> Some (many (\<lambda>c. c \<noteq> CHR '')'') r);
          r \<leftarrow> lit (CHR '')'') r;
          Some (Some dv, r)
        } of
        Some m \<Rightarrow> Some m
      | None \<Rightarrow> do { r \<leftarrow> lit (CHR '')'') s; Some (None, r) })"

text \<open>\<^verbatim>\<open>\s*\)\<close>\<close>

definition closeParen :: "string \<Rightarrow> string option" where
  "closeParen s = do { (_, r) \<leftarrow> Some (many isSpace s); lit (CHR '')'') r }"

text \<open>
  \<open>PATTERNS.typedGetter\<close>:
  \<^verbatim>\<open>/\.get(String|Bool|Float|Double|Int|UInt|Array|Object)\s*\(\s*"([^"]+)"(?:\s*,\s*([^)]*))?\)/g\<close>
\<close>

definition typedGetter :: "string \<Rightarrow> ((string \<times> string \<times> string option) \<times> string) option" where
  "typedGetter s =
     do {
       r \<leftarrow> lits ''.get'' s;
       (cppType, r) \<leftarrow> oneOf [''String'', ''Bool'', ''Float'', ''Double'', ''Int'', ''UInt'',
                               ''Array'', ''Object''] r;
       (fName, r) \<leftarrow> quotedName r;
       (dflt, r) \<leftarrow> optionalDefault r;
       Some ((cppType, fName, dflt), r)
     }"

text \<open>
  \<open>PATTERNS.optGetter\<close>:
  \<^verbatim>\<open>/\.opt(String|Float|Int|UInt|Bool|Array|Object)\s*\(\s*"([^"]+)"\s*\)/g\<close>
\<close>

definition optGetter :: "string \<Rightarrow> ((string \<times> string) \<times> string) option" where
  "optGetter s =
     do {
       r \<leftarrow> lits ''.opt'' s;
       (cppType, r) \<leftarrow> oneOf [''String'', ''Float'', ''Int'', ''UInt'', ''Bool'', ''Array'', ''Object''] r;
       (fName, r) \<leftarrow> quotedName r;
       r \<leftarrow> closeParen r;
       Some ((cppType, fName), r)
     }"

text \<open>\<open>PATTERNS.genericOpt\<close>: \<^verbatim>\<open>/\.opt\s*\(\s*"([^"]+)"\s*\)/g\<close>\<close>

definition genericOpt :: "string \<Rightarrow> (string \<times> string) option" where
  "genericOpt s =
     do {
       r \<leftarrow> lits ''.opt'' s;
       (fName, r) \<leftarrow> quotedName r;
       r \<leftarrow> closeParen r;
       Some (fName, r)
     }"

text \<open>\<open>PATTERNS.genericGet\<close>: \<^verbatim>\<open>/\.get\s*\(\s*"([^"]+)"(?:\s*,\s*([^)]*))?\)/g\<close>\<close>

definition genericGet :: "string \<Rightarrow> ((string \<times> string option) \<times> string) option" where
  "genericGet s =
     do {
       r \<leftarrow> lits ''.get'' s;
       (fName, r) \<leftarrow> quotedName r;
       (dflt, r) \<leftarrow> optionalDefault r;
       Some ((fName, dflt), r)
     }"

text \<open>\<open>PATTERNS.contains\<close>: \<^verbatim>\<open>/\.contains\s*\(\s*"([^"]+)"\s*\)/g\<close>\<close>

definition containsCall :: "string \<Rightarrow> (string \<times> string) option" where
  "containsCall s =
     do {
       r \<leftarrow> lits ''.contains'' s;
       (fName, r) \<leftarrow> quotedName r;
       r \<leftarrow> closeParen r;
       Some (fName, r)
     }"

text \<open>
  \<open>PATTERNS.converter\<close>:
  \<^verbatim>\<open>/(jsonTo(?:Vec2F|...|WeightedPool))\s*\([^)]*\.get\w*\s*\(\s*"([^"]+)"/g\<close>.
  Here the greedy \<open>[^)]*\<close> does give characters back: the engine takes the last
  position inside the run of characters other than \<open>)\<close> at which the rest,
  \<^verbatim>\<open>\.get\w*\s*\(\s*"([^"]+)"\<close>, matches.
\<close>

definition wrappedGet :: "string \<Rightarrow> (string \<times> string) option" where
  "wrappedGet s =
     do {
       r \<leftarrow> lits ''.get'' s;
       (_, r) \<leftarrow> Some (many isWord r);
       quotedName r
     }"

fun lastWrappedGet :: "nat \<Rightarrow> string \<Rightarrow> (string \<times> string) option" where
  "lastWrappedGet 0 s = wrappedGet s"
| "lastWrappedGet (Suc k) s =
     (case wrappedGet (drop (Suc k) s) of Some m \<Rightarrow> Some m | None \<Rightarrow> lastWrappedGet k s)"

definition converter :: "string \<Rightarrow> ((string \<times> string) \<times> string) option" where
  "converter s =
     do {
       r \<leftarrow> lits ''jsonTo'' s;
       (kind, r) \<leftarrow> oneOf [''Vec2F'', ''Vec2I'', ''Vec2U'', ''Vec3B'', ''Vec4B'', ''Color'', ''RectF'',
                            ''PolyF'', ''StringList'', ''StringSet'', ''WeightedPool''] r;
       (_, r) \<leftarrow> Some (many isSpace r);
       r \<leftarrow> lit (CHR ''('') r;
       (fName, r) \<leftarrow> lastWrappedGet (length (takeWhile (\<lambda>c. c \<noteq> CHR '')'') r)) r;
       Some ((''jsonTo'' @ kind, fName), r)
     }"

subsection \<open>The candidates\<close>

text \<open>
  The state of \<open>extractFieldsFromFile\<close>: the array \<open>fields\<close> and the set \<open>seen\<close>, whose
  elements are the keys \<open>fieldName:type\<close> that \<open>addField\<close> builds.
\<close>

type_synonym field_acc = "ExtractedField list \<times> string set"

definition addField :: "ExtractedField \<Rightarrow> field_acc \<Rightarrow> field_acc" where
  "addField field acc =
     (case acc of (flds, seen) \<Rightarrow>
        let key = fieldName field @ '':'' @ type field
        in if key \<notin> seen then (flds @ [field], insert key seen) else (flds, seen))"

definition getLineNumber :: "string \<Rightarrow> nat \<Rightarrow> nat" where
  "getLineNumber content index = length (splitOn (CHR 0x0A) (substring content 0 index))"

definition getContext :: "string \<Rightarrow> nat \<Rightarrow> string" where
  "getContext content index =
     (let lines = splitOn (CHR 0x0A) content;
          lineNum = getLineNumber content index;
          start = lineNum - 2;
          end' = min (length lines) (lineNum + 1)
      in join '' | '' (map trim (take (end' - start) (drop start lines))))"

text \<open>\<open>GETTER_TYPE_MAP[cppType] ?? cppType\<close>\<close>

definition getterType :: "string \<Rightarrow> string" where
  "getterType cppType = nullish (map_of GETTER_TYPE_MAP cppType) cppType"

text \<open>
  The scan of a window of the text for the name of a converter: the type of the first
  entry of \<open>CONVERTER_TYPE_MAP\<close> whose name the window includes, \<open>Json\<close> without one.
\<close>

definition converterScan :: "string \<Rightarrow> string" where
  "converterScan surroundingCode =
     (case find (\<lambda>(converterName, convertedType). includes_str surroundingCode converterName)
             CONVERTER_TYPE_MAP of
        Some (converterName, convertedType) \<Rightarrow> convertedType
      | None \<Rightarrow> ''Json'')"

text \<open>\<open>!!defaultValue\<close>: a captured, non-empty default.\<close>

definition truthy :: "string option \<Rightarrow> bool" where
  "truthy v = (case v of Some s \<Rightarrow> s \<noteq> [] | None \<Rightarrow> False)"

text \<open>
  The tests of pattern 5:
  \<^verbatim>\<open>/\.get(String|Bool|Float|Double|Int|UInt|Array|Object)\s*\(/.test(...)\<close> (a match
  anywhere in the text), \<^verbatim>\<open>/^\s*\)\s*\.\s*to(Float|Int|Bool|String|UInt|Array|Object)\s*\(/\<close>,
  \<^verbatim>\<open>/^\d+\.\d+f?$/\<close> and \<^verbatim>\<open>/^\d+$/\<close>.
\<close>

definition typedCallAt :: "string \<Rightarrow> bool" where
  "typedCallAt s =
     (do {
        r \<leftarrow> lits ''.get'' s;
        (_, r) \<leftarrow> oneOf [''String'', ''Bool'', ''Float'', ''Double'', ''Int'', ''UInt'',
                          ''Array'', ''Object''] r;
        (_, r) \<leftarrow> Some (many isSpace r);
        lit (CHR ''('') r
      } \<noteq> None)"

fun anywhere :: "(string \<Rightarrow> bool) \<Rightarrow> string \<Rightarrow> bool" where
  "anywhere P [] = P []"
| "anywhere P (c # s) = (P (c # s) \<or> anywhere P s)"

definition toTypeMatch :: "string \<Rightarrow> string option" where
  "toTypeMatch s =
     do {
       (_, r) \<leftarrow> Some (many isSpace s);
       r \<leftarrow> lit (CHR '')'') r;
       (_, r) \<leftarrow> Some (many isSpace r);
       r \<leftarrow> lit (CHR ''.'') r;
       (_, r) \<leftarrow> Some (many isSpace r);
       r \<leftarrow> lits ''to'' r;
       (t, r) \<leftarrow> oneOf [''Float'', ''Int'', ''Bool'', ''String'', ''UInt'', ''Array'', ''Object''] r;
       (_, r) \<leftarrow> Some (many isSpace r);
       r \<leftarrow> lit (CHR ''('') r;
       Some t
     }"

definition isDigit :: "char \<Rightarrow> bool" where
  "isDigit c \<longleftrightarrow> c \<in> set ''0123456789''"

definition floatLiteral :: "string \<Rightarrow> bool" where
  "floatLiteral dv =
     (do {
        (_, r) \<leftarrow> many1 isDigit dv;
        r \<leftarrow> lit (CHR ''.'') r;
        (_, r) \<leftarrow> many1 isDigit r;
        r \<leftarrow> Some (case lit (CHR ''f'') r of Some r' \<Rightarrow> r' | None \<Rightarrow> r);
        atEnd r
      } \<noteq> None)"

definition intLiteral :: "string \<Rightarrow> bool" where
  "intLiteral dv = (do { (_, r) \<leftarrow> many1 isDigit dv; atEnd r } \<noteq> None)"

definition inferFromDefault :: "string \<Rightarrow> string" where
  "inferFromDefault dv =
     (if dv = ''true'' \<or> dv = ''false'' then ''Bool''
      else if dv = ''JsonArray()'' \<or> dv = ''{}'' then ''Array''
      else if dv = ''JsonObject()'' \<or> dv = ''JsonObject{}'' then ''Object''
      else if floatLiteral dv then ''Float''
      else if intLiteral dv then ''Int''
      else if startsWith dv [CHR 0x22] then ''String''
      else ''Json'')"

text \<open>
  The bodies of the six loops, each applied to one match \<open>(index, length, groups)\<close> of
  its pattern. Pattern 5 puts its key into \<open>seen\<close> before it calls \<open>addField\<close>;
  pattern 6 asks \<open>seen\<close> for the bare field name.
\<close>

definition typedGetterStep ::
  "string \<Rightarrow> string \<Rightarrow> nat \<times> nat \<times> string \<times> string \<times> string option \<Rightarrow> field_acc \<Rightarrow> field_acc" where
  "typedGetterStep file content m acc =
     (case m of (index, len, cppType, fName, dflt) \<Rightarrow>
        addField \<lparr>fieldName = fName, type = getterType cppType,
          defaultValue = map_option trim dflt, optional = truthy dflt,
          sourceFile = file, lineNumber = getLineNumber content index,
          context = getContext content index\<rparr> acc)"

definition optGetterStep ::
  "string \<Rightarrow> string \<Rightarrow> nat \<times> nat \<times> string \<times> string \<Rightarrow> field_acc \<Rightarrow> field_acc" where
  "optGetterStep file content m acc =
     (case m of (index, len, cppType, fName) \<Rightarrow>
        addField \<lparr>fieldName = fName, type = getterType cppType,
          defaultValue = None, optional = True,
          sourceFile = file, lineNumber = getLineNumber content index,
          context = getContext content index\<rparr> acc)"

definition genericOptStep ::
  "string \<Rightarrow> string \<Rightarrow> nat \<times> nat \<times> string \<Rightarrow> field_acc \<Rightarrow> field_acc" where
  "genericOptStep file content m acc =
     (case m of (index, len, fName) \<Rightarrow>
        addField \<lparr>fieldName = fName,
          type = converterScan (substring content (index - 100) (index + len + 100)),
          defaultValue = None, optional = True,
          sourceFile = file, lineNumber = getLineNumber content index,
          context = getContext content index\<rparr> acc)"

definition converterStep ::
  "string \<Rightarrow> string \<Rightarrow> nat \<times> nat \<times> string \<times> string \<Rightarrow> field_acc \<Rightarrow> field_acc" where
  "converterStep file content m acc =
     (case m of (index, len, converterFunc, fName) \<Rightarrow>
        addField \<lparr>fieldName = fName,
          type = nullish (map_of CONVERTER_TYPE_MAP converterFunc) ''Json'',
          defaultValue = None, optional = False,
          sourceFile = file, lineNumber = getLineNumber content index,
          context = getContext content index\<rparr> acc)"

definition genericGetStep ::
  "string \<Rightarrow> string \<Rightarrow> nat \<times> nat \<times> string \<times> string option \<Rightarrow> field_acc \<Rightarrow> field_acc" where
  "genericGetStep file content m acc =
     (case m of (index, len, fName, dflt) \<Rightarrow>
        if anywhere typedCallAt (substring content (index - 10) (index + len)) then acc
        else
          (let ty0 = converterScan (substring content (index - 150) (index + len + 50));
               ty1 = (case toTypeMatch (substring content (index + len) (index + len + 30)) of
                        Some t \<Rightarrow> getterType t | None \<Rightarrow> ty0);
               ty = (if ty1 = ''Json'' \<and> truthy dflt then inferFromDefault (trim (the dflt))
                     else ty1);
               key = fName @ '':'' @ ty
           in case acc of (flds, seen) \<Rightarrow>
                if key \<notin> seen then
                  addField \<lparr>fieldName = fName, type = ty,
                    defaultValue = map_option trim dflt, optional = truthy dflt,
                    sourceFile = file, lineNumber = getLineNumber content index,
                    context = getContext content index\<rparr>
                    (flds, insert key seen)
                else acc))"

definition containsStep ::
  "string \<Rightarrow> string \<Rightarrow> nat \<times> nat \<times> string \<Rightarrow> field_acc \<Rightarrow> field_acc" where
  "containsStep file content m acc =
     (case m of (index, len, fName) \<Rightarrow>
        case acc of (flds, seen) \<Rightarrow>
          if fName \<notin> seen then
            addField \<lparr>fieldName = fName, type = ''Json'',
              defaultValue = None, optional = True,
              sourceFile = file, lineNumber = getLineNumber content index,
              context = getContext content index\<rparr> acc
          else acc)"

text \<open>
  \<open>extractFieldsFromFile\<close> of a file with base name \<open>file\<close> and text \<open>content\<close>: the six
  pattern families in their order, over the whole text each.
\<close>

definition extractFieldsFromFile :: "string \<Rightarrow> string \<Rightarrow> ExtractedField list" where
  "extractFieldsFromFile file content =
     fst (fold (containsStep file content) (execAll containsCall 0 content)
         (fold (genericGetStep file content) (execAll genericGet 0 content)
         (fold (converterStep file content) (execAll converter 0 content)
         (fold (genericOptStep file content) (execAll genericOpt 0 content)
         (fold (optGetterStep file content) (execAll optGetter 0 content)
         (fold (typedGetterStep file content) (execAll typedGetter 0 content) ([], {})))))))"

lemmas field_defs = extractFieldsFromFile_def typedGetterStep_def optGetterStep_def
  genericOptStep_def converterStep_def genericGetStep_def containsStep_def
  addField_def getLineNumber_def getContext_def
  getterType_def converterScan_def truthy_def typedCallAt_def toTypeMatch_def inferFromDefault_def
  typedGetter_def optGetter_def genericOpt_def genericGet_def containsCall_def converter_def
  wrappedGet_def quotedName_def optionalDefault_def closeParen_def lits_def substring_def
  GETTER_TYPE_MAP_def CONVERTER_TYPE_MAP_def startsWith_def lit_def many_def many1_def
  isSpace_def isWord_def trim_def nullish_def Let_def

text \<open>
  Two lines of source text: a typed accessor for the field \<open>name\<close>, then a presence check
  for the same field.
\<close>

definition presenceSource :: string where
  "presenceSource = join [CHR 0x0A]
     [''auto name = config.getString(\"name\");'',
      ''if (config.contains(\"name\")) {}'']"

text \<open>
  Claim C9 says that a presence check adds a candidate exactly when the field name has
  not been seen by an earlier pattern family. The guard of the loop is
  \<open>!seen.has(fieldName)\<close>, but \<open>seen\<close> holds keys \<open>fieldName:type\<close>: the step adds the
  candidate \<open>(name, Json, optional)\<close> unless the bare name or the key \<open>name:Json\<close> is in
  \<open>seen\<close>. So a name that pattern 1 captured with type \<open>String\<close> gets a second candidate
  from its presence check, as the evaluation of the two lines shows.
\<close>

theorem presence_check_after_typed_getter:
  "containsStep file content (index, len, fName) (flds, seen) =
     (if fName \<notin> seen \<and> fName @ '':Json'' \<notin> seen then
        (flds @ [\<lparr>fieldName = fName, type = ''Json'', defaultValue = None, optional = True,
                  sourceFile = file, lineNumber = getLineNumber content index,
                  context = getContext content index\<rparr>],
         insert (fName @ '':Json'') seen)
      else (flds, seen))
   \<and> map (\<lambda>f. (fieldName f, type f, optional f, lineNumber f))
       (extractFieldsFromFile ''StarItemDatabase.cpp'' presenceSource) =
     [(''name'', ''String'', False, 1), (''name'', ''Json'', True, 2)]"
proof -
  have step: "containsStep file content (index, len, fName) (flds, seen) =
     (if fName \<notin> seen \<and> fName @ '':Json'' \<notin> seen then
        (flds @ [\<lparr>fieldName = fName, type = ''Json'', defaultValue = None, optional = True,
                  sourceFile = file, lineNumber = getLineNumber content index,
                  context = getContext content index\<rparr>],
         insert (fName @ '':Json'') seen)
      else (flds, seen))"
    by (simp add: containsStep_def addField_def Let_def)
  have run: "map (\<lambda>f. (fieldName f, type f, optional f, lineNumber f))
       (extractFieldsFromFile ''StarItemDatabase.cpp'' presenceSource) =
     [(''name'', ''String'', False, 1), (''name'', ''Json'', True, 2)]"
    by (simp add: field_defs presenceSource_def)
  from step run show ?thesis by (rule conjI)
qed

section \<open>extract-openstarbound.ts: insertExtractedData\<close>

text \<open>
  The files handed to the storage step, and an entry of the table \<open>DATABASE_TO_ASSET\<close>.
  (The field \<open>fields\<close> of \<open>DatabaseFileInfo\<close> is written \<open>fields'\<close>.) The table itself
  is a parameter of the model: what follows holds for every table.
\<close>

record DatabaseFileInfo =
  fileName :: string
  assetType :: string
  fileExtension :: string
  fields' :: "ExtractedField list"

record asset_mapping =
  assetType :: string
  extension :: string
  description :: string

text \<open>
  The knowledge store, as \<open>schema.ts\<close> declares it: the rows of the tables the step
  writes, in the order of their insertion. A nullable column is an \<open>option\<close>.
  \<open>asset_types\<close> is \<open>UNIQUE(source_id, name)\<close> and \<open>asset_fields\<close> is
  \<open>UNIQUE(asset_type_id, field_path)\<close>.
\<close>

record source_row =
  s_id :: nat
  s_name :: string
  s_version :: "string option"
  s_description :: "string option"
  s_url :: "string option"

record asset_type_row =
  at_id :: nat
  at_source_id :: nat
  at_name :: string
  at_file_extension :: "string option"
  at_description :: "string option"
  at_base_path :: "string option"

record asset_field_row =
  af_id :: nat
  af_asset_type_id :: nat
  af_field_path :: string
  af_type :: string
  af_description :: "string option"
  af_required :: "int option"
  af_default_value :: "string option"
  af_enum_values :: "string option"
  af_examples :: "string option"

record search_row =
  si_entity_type :: string
  si_entity_id :: nat
  si_name :: string
  si_content :: string
  si_source :: string

record database =
  sources :: "source_row list"
  asset_types :: "asset_type_row list"
  asset_fields :: "asset_field_row list"
  search_index :: "search_row list"

text \<open>
  \<open>lastInsertRowid\<close> of an insertion into a table with the given ids: one more than the
  largest id (the pipeline never deletes a row).
\<close>

definition nextId :: "nat list \<Rightarrow> nat" where
  "nextId ids = Suc (fold max ids 0)"

text \<open>A line number inside a template literal: its decimal digits.\<close>

definition digit :: "nat \<Rightarrow> char" where
  "digit d = ''0123456789'' ! d"

function showNat :: "nat \<Rightarrow> string" where
  "showNat n = (if n < 10 then [digit n] else showNat (n div 10) @ [digit (n mod 10)])"
  by pat_completeness auto
termination
  by (relation "measure id") auto

text \<open>
  The statements. \<open>SELECT ... .get()\<close> returns the first matching row;
  \<open>INSERT OR IGNORE\<close> does nothing when a row with the same unique key is stored, and
  appends the row otherwise.
\<close>

definition getSource :: "string \<Rightarrow> database \<Rightarrow> source_row option" where
  "getSource nm db = find (\<lambda>r. s_name r = nm) (sources db)"

definition insertSource ::
  "string \<Rightarrow> string option \<Rightarrow> string \<Rightarrow> string \<Rightarrow> database \<Rightarrow> nat \<times> database" where
  "insertSource nm ver descr url db =
     (let rowid = nextId (map s_id (sources db))
      in (rowid, db\<lparr>sources := sources db @
            [\<lparr>s_id = rowid, s_name = nm, s_version = ver, s_description = Some descr,
              s_url = Some url\<rparr>]\<rparr>))"

definition insertAssetType ::
  "nat \<Rightarrow> string \<Rightarrow> string \<Rightarrow> string \<Rightarrow> string \<Rightarrow> database \<Rightarrow> database" where
  "insertAssetType sourceId nm ext descr basePath db =
     (if \<exists>r \<in> set (asset_types db). at_source_id r = sourceId \<and> at_name r = nm then db
      else db\<lparr>asset_types := asset_types db @
             [\<lparr>at_id = nextId (map at_id (asset_types db)), at_source_id = sourceId, at_name = nm,
               at_file_extension = Some ext, at_description = Some descr,
               at_base_path = Some basePath\<rparr>]\<rparr>)"

definition getAssetType :: "nat \<Rightarrow> string \<Rightarrow> database \<Rightarrow> asset_type_row option" where
  "getAssetType sourceId nm db =
     find (\<lambda>r. at_source_id r = sourceId \<and> at_name r = nm) (asset_types db)"

definition insertField ::
  "nat \<Rightarrow> string \<Rightarrow> string \<Rightarrow> string \<Rightarrow> int \<Rightarrow> string option \<Rightarrow> database \<Rightarrow> database" where
  "insertField assetTypeId fieldPath ty descr req dflt db =
     (if \<exists>r \<in> set (asset_fields db). af_asset_type_id r = assetTypeId \<and> af_field_path r = fieldPath
      then db
      else db\<lparr>asset_fields := asset_fields db @
             [\<lparr>af_id = nextId (map af_id (asset_fields db)), af_asset_type_id = assetTypeId,
               af_field_path = fieldPath, af_type = ty, af_description = Some descr,
               af_required = Some req, af_default_value = dflt,
               af_enum_values = None, af_examples = None\<rparr>]\<rparr>)"

definition insertSearch ::
  "string \<Rightarrow> nat \<Rightarrow> string \<Rightarrow> string \<Rightarrow> string \<Rightarrow> database \<Rightarrow> database" where
  "insertSearch entityType entityId nm cont src db =
     db\<lparr>search_index := search_index db @
        [\<lparr>si_entity_type = entityType, si_entity_id = entityId, si_name = nm, si_content = cont,
          si_source = src\<rparr>]\<rparr>"

text \<open>The description built for a field, and one \<open>insertField.run\<close>.\<close>

definition fieldDescription :: "ExtractedField \<Rightarrow> string" where
  "fieldDescription field =
     trim (''Extracted from '' @ sourceFile field @ '':'' @ showNat (lineNumber field) @ ''. ''
           @ (if optional field then ''Optional.'' else ''Required.'') @ '' ''
           @ (case defaultValue field of
                Some d \<Rightarrow> if d \<noteq> [] then ''Default: '' @ d else []
              | None \<Rightarrow> []))"

definition storeField :: "nat \<Rightarrow> ExtractedField \<Rightarrow> database \<Rightarrow> database" where
  "storeField assetTypeId field db =
     insertField assetTypeId (fieldName field) (type field) (fieldDescription field)
       (if optional field then 0 else 1) (defaultValue field) db"

text \<open>
  The body of \<open>for (const dbFile of dbFiles)\<close>: both \<open>continue\<close>s, the fields of the
  file, and the search row of the asset type.
\<close>

definition storeFile ::
  "(string \<rightharpoonup> asset_mapping) \<Rightarrow> nat \<Rightarrow> DatabaseFileInfo \<Rightarrow> database \<Rightarrow> database" where
  "storeFile DATABASE_TO_ASSET sourceId dbFile db =
     (case DATABASE_TO_ASSET (fileName dbFile) of
        None \<Rightarrow> db
      | Some mapping \<Rightarrow>
          (let db1 = insertAssetType sourceId (assetType mapping) (extension mapping)
                       (description mapping) [] db
           in case getAssetType sourceId (assetType mapping) db1 of
                None \<Rightarrow> db1
              | Some assetTypeRow \<Rightarrow>
                  insertSearch ''asset_type'' (at_id assetTypeRow) (assetType mapping)
                    (description mapping) ''openstarbound''
                    (fold (storeField (at_id assetTypeRow)) (fields' dbFile) db1)))"

text \<open>
  After the transaction every stored field of the source \<open>openstarbound\<close> is indexed
  for search (the rows of the join in the order of \<open>asset_fields\<close>).
\<close>

definition allFields :: "database \<Rightarrow> (nat \<times> string \<times> string option \<times> string) list" where
  "allFields db =
     [(af_id af, af_field_path af, af_description af, at_name aty).
        af \<leftarrow> asset_fields db, aty \<leftarrow> asset_types db, af_asset_type_id af = at_id aty,
        s \<leftarrow> sources db, at_source_id aty = s_id s, s_name s = ''openstarbound'']"

definition indexFields :: "database \<Rightarrow> database" where
  "indexFields db =
     fold (\<lambda>(fid, field_path, descr, asset_name).
        insertSearch ''asset_field'' fid (asset_name @ ''.'' @ field_path) (nullish descr [])
          ''openstarbound'')
       (allFields db) db"

text \<open>
  The source row is looked up and created when missing. The description text of the new
  row holds an em dash, a character beyond the 8-bit characters of the model, and so do
  the descriptions in \<open>DATABASE_TO_ASSET\<close>; the text is the parameter
  \<open>sourceDescription\<close>.
\<close>

definition ensureSource :: "string \<Rightarrow> database \<Rightarrow> nat \<times> database" where
  "ensureSource sourceDescription db =
     (case getSource ''openstarbound'' db of
        Some existingSource \<Rightarrow> (s_id existingSource, db)
      | None \<Rightarrow>
          insertSource ''openstarbound'' None sourceDescription
            ''https://github.com/OpenStarbound/OpenStarbound'' db)"

definition insertExtractedData ::
  "(string \<rightharpoonup> asset_mapping) \<Rightarrow> string \<Rightarrow> DatabaseFileInfo list \<Rightarrow> database \<Rightarrow> database" where
  "insertExtractedData DATABASE_TO_ASSET sourceDescription dbFiles db =
     (case ensureSource sourceDescription db of
        (sourceId, db1) \<Rightarrow> indexFields (fold (storeFile DATABASE_TO_ASSET sourceId) dbFiles db1))"

subsection \<open>A second run stores nothing new\<close>

text \<open>
  \<open>hasField\<close> is the conflict test of \<open>insertField\<close>, \<open>fieldKey\<close> the unique key of a
  field row. \<open>grows db db'\<close>: the three tables of \<open>db'\<close> extend those of \<open>db\<close> at the end;
  \<open>sameTables\<close>: they are equal (the search index may differ). \<open>fileCovered\<close>: the asset
  type of the file and all its fields are stored.
\<close>

definition hasField :: "nat \<Rightarrow> string \<Rightarrow> database \<Rightarrow> bool" where
  "hasField assetTypeId fieldPath db \<longleftrightarrow>
     (\<exists>r \<in> set (asset_fields db). af_asset_type_id r = assetTypeId \<and> af_field_path r = fieldPath)"

definition fieldKey :: "asset_field_row \<Rightarrow> nat \<times> string" where
  "fieldKey r = (af_asset_type_id r, af_field_path r)"

definition grows :: "database \<Rightarrow> database \<Rightarrow> bool" where
  "grows db db' \<longleftrightarrow> prefix (sources db) (sources db') \<and> prefix (asset_types db) (asset_types db')
     \<and> prefix (asset_fields db) (asset_fields db')"

definition sameTables :: "database \<Rightarrow> database \<Rightarrow> bool" where
  "sameTables db db' \<longleftrightarrow> sources db = sources db' \<and> asset_types db = asset_types db'
     \<and> asset_fields db = asset_fields db'"

definition fileCovered ::
  "(string \<rightharpoonup> asset_mapping) \<Rightarrow> nat \<Rightarrow> DatabaseFileInfo \<Rightarrow> database \<Rightarrow> bool" where
  "fileCovered T sourceId dbFile db \<longleftrightarrow>
     (case T (fileName dbFile) of
        None \<Rightarrow> True
      | Some mapping \<Rightarrow>
          (case getAssetType sourceId (assetType mapping) db of
             None \<Rightarrow> False
           | Some row \<Rightarrow> \<forall>fld \<in> set (fields' dbFile). hasField (at_id row) (fieldName fld) db))"

lemma grows_refl [simp]: "grows db db"
  by (simp add: grows_def)

lemma grows_trans: "grows a b \<Longrightarrow> grows b c \<Longrightarrow> grows a c"
  by (auto simp: grows_def intro: prefix_order.trans)

lemma sameTables_grows: "sameTables a b \<Longrightarrow> grows a b"
  by (simp add: sameTables_def grows_def)

lemma sameTables_sym: "sameTables a b \<Longrightarrow> sameTables b a"
  by (simp add: sameTables_def)

lemma sameTables_trans: "sameTables a b \<Longrightarrow> sameTables b c \<Longrightarrow> sameTables a c"
  by (simp add: sameTables_def)

lemma find_append_Some: "find P xs = Some r \<Longrightarrow> find P (xs @ zs) = Some r"
  by (induction xs) auto

lemma find_prefix: "find P xs = Some r \<Longrightarrow> prefix xs ys \<Longrightarrow> find P ys = Some r"
  by (auto simp: prefix_def find_append_Some)

lemma hasField_grows: "hasField t p db \<Longrightarrow> grows db db' \<Longrightarrow> hasField t p db'"
  by (auto simp: hasField_def grows_def dest: set_mono_prefix)

lemma getAssetType_grows:
  "getAssetType s n db = Some r \<Longrightarrow> grows db db' \<Longrightarrow> getAssetType s n db' = Some r"
  by (auto simp: getAssetType_def grows_def intro: find_prefix)

lemma fileCovered_grows:
  assumes "fileCovered T s f db" and "grows db db'"
  shows "fileCovered T s f db'"
proof (cases "T (fileName f)")
  case None
  then show ?thesis by (simp add: fileCovered_def)
next
  case (Some m)
  with assms(1) obtain row where row: "getAssetType s (assetType m) db = Some row"
    and all: "\<forall>fld \<in> set (fields' f). hasField (at_id row) (fieldName fld) db"
    by (auto simp: fileCovered_def split: option.splits)
  have "getAssetType s (assetType m) db' = Some row"
    using row assms(2) by (rule getAssetType_grows)
  moreover have "\<forall>fld \<in> set (fields' f). hasField (at_id row) (fieldName fld) db'"
    using all assms(2) by (auto intro: hasField_grows)
  ultimately show ?thesis using Some by (simp add: fileCovered_def)
qed

lemma insertField_grows: "grows db (insertField t p ty d r dv db)"
  by (simp add: insertField_def grows_def)

lemma insertField_has: "hasField t p (insertField t p ty d r dv db)"
  by (auto simp: insertField_def hasField_def)

lemma insertField_noop: "hasField t p db \<Longrightarrow> insertField t p ty d r dv db = db"
  by (simp add: insertField_def hasField_def)

lemma insertField_tables:
  "sources (insertField t p ty d r dv db) = sources db"
  "asset_types (insertField t p ty d r dv db) = asset_types db"
  by (simp_all add: insertField_def)

lemma storeFields_grows: "grows db (fold (storeField t) flds db)"
proof (induction flds arbitrary: db)
  case Nil
  show ?case by simp
next
  case (Cons fld flds)
  have "grows db (storeField t fld db)" by (simp add: storeField_def insertField_grows)
  then show ?case using Cons.IH[of "storeField t fld db"] by (auto intro: grows_trans)
qed

lemma storeFields_tables:
  "sources (fold (storeField t) flds db) = sources db"
  "asset_types (fold (storeField t) flds db) = asset_types db"
  by (induction flds arbitrary: db) (simp_all add: storeField_def insertField_tables)

lemma storeFields_has:
  "fld \<in> set flds \<Longrightarrow> hasField t (fieldName fld) (fold (storeField t) flds db)"
proof (induction flds arbitrary: db)
  case Nil
  then show ?case by simp
next
  case (Cons a flds)
  show ?case
  proof (cases "fld = a")
    case True
    have "hasField t (fieldName a) (storeField t a db)"
      by (simp add: storeField_def insertField_has)
    then show ?thesis using True storeFields_grows[of "storeField t a db" t flds]
      by (auto intro: hasField_grows)
  next
    case False
    with Cons show ?thesis by simp
  qed
qed

lemma storeFields_noop:
  "\<forall>fld \<in> set flds. hasField t (fieldName fld) db \<Longrightarrow> fold (storeField t) flds db = db"
  by (induction flds) (simp_all add: storeField_def insertField_noop)

lemma insertAssetType_grows: "grows db (insertAssetType s n e d b db)"
  by (simp add: insertAssetType_def grows_def)

lemma insertAssetType_get: "\<exists>r. getAssetType s n (insertAssetType s n e d b db) = Some r"
proof -
  have "\<exists>r \<in> set (asset_types (insertAssetType s n e d b db)). at_source_id r = s \<and> at_name r = n"
    by (auto simp: insertAssetType_def)
  then show ?thesis
    unfolding getAssetType_def by (cases "find (\<lambda>r. at_source_id r = s \<and> at_name r = n)
      (asset_types (insertAssetType s n e d b db))") (auto simp: find_None_iff)
qed

lemma insertAssetType_noop:
  "getAssetType s n db = Some r \<Longrightarrow> insertAssetType s n e d b db = db"
  by (auto simp: insertAssetType_def getAssetType_def find_Some_iff)

lemma insertSearch_tables: "sameTables db (insertSearch a b c d e db)"
  by (simp add: insertSearch_def sameTables_def)

lemma getAssetType_sameTables:
  "asset_types db = asset_types db' \<Longrightarrow> getAssetType s n db = getAssetType s n db'"
  by (simp add: getAssetType_def)

lemma storeFile_grows: "grows db (storeFile T s f db)"
proof (cases "T (fileName f)")
  case None
  then show ?thesis by (simp add: storeFile_def)
next
  case (Some m)
  let ?db1 = "insertAssetType s (assetType m) (extension m) (description m) [] db"
  show ?thesis
  proof (cases "getAssetType s (assetType m) ?db1")
    case None
    with Some show ?thesis by (simp add: storeFile_def insertAssetType_grows)
  next
    case (Some row)
    have "grows db ?db1" by (rule insertAssetType_grows)
    moreover have "grows ?db1 (fold (storeField (at_id row)) (fields' f) ?db1)"
      by (rule storeFields_grows)
    moreover have "grows (fold (storeField (at_id row)) (fields' f) ?db1)
        (insertSearch ''asset_type'' (at_id row) (assetType m) (description m) ''openstarbound''
          (fold (storeField (at_id row)) (fields' f) ?db1))"
      by (intro sameTables_grows insertSearch_tables)
    ultimately show ?thesis using Some \<open>T (fileName f) = Some m\<close>
      by (auto simp: storeFile_def Let_def intro: grows_trans)
  qed
qed

lemma storeFile_covered: "fileCovered T s f (storeFile T s f db)"
proof (cases "T (fileName f)")
  case None
  then show ?thesis by (simp add: fileCovered_def)
next
  case (Some m)
  let ?db1 = "insertAssetType s (assetType m) (extension m) (description m) [] db"
  obtain row where row: "getAssetType s (assetType m) ?db1 = Some row"
    using insertAssetType_get by blast
  let ?db2 = "fold (storeField (at_id row)) (fields' f) ?db1"
  let ?db3 = "insertSearch ''asset_type'' (at_id row) (assetType m) (description m) ''openstarbound'' ?db2"
  have eq: "storeFile T s f db = ?db3"
    using Some row by (simp add: storeFile_def Let_def)
  have st: "sameTables ?db2 ?db3" by (rule insertSearch_tables)
  have "getAssetType s (assetType m) ?db2 = Some row"
    using row getAssetType_sameTables[of ?db2 ?db1] by (simp add: storeFields_tables)
  then have g3: "getAssetType s (assetType m) ?db3 = Some row"
    using st getAssetType_sameTables[of ?db3 ?db2] by (simp add: sameTables_def)
  have "\<forall>fld \<in> set (fields' f). hasField (at_id row) (fieldName fld) ?db3"
    using storeFields_has[of _ "fields' f" "at_id row" ?db1] sameTables_grows[OF st]
    by (auto intro: hasField_grows)
  with g3 Some show ?thesis unfolding eq by (simp add: fileCovered_def)
qed

lemma storeFile_noop: "fileCovered T s f db \<Longrightarrow> sameTables db (storeFile T s f db)"
proof (cases "T (fileName f)")
  case None
  then show ?thesis by (simp add: storeFile_def sameTables_def)
next
  case (Some m)
  assume cov: "fileCovered T s f db"
  with Some obtain row where row: "getAssetType s (assetType m) db = Some row"
    and all: "\<forall>fld \<in> set (fields' f). hasField (at_id row) (fieldName fld) db"
    by (auto simp: fileCovered_def split: option.splits)
  have 1: "insertAssetType s (assetType m) (extension m) (description m) [] db = db"
    using row by (rule insertAssetType_noop)
  have 2: "fold (storeField (at_id row)) (fields' f) db = db"
    using all by (rule storeFields_noop)
  show ?thesis
    using Some row by (simp add: storeFile_def Let_def 1 2 insertSearch_tables)
qed

lemma storeFiles_grows: "grows db (fold (storeFile T s) fs db)"
proof (induction fs arbitrary: db)
  case Nil
  show ?case by simp
next
  case (Cons f fs)
  show ?case using storeFile_grows[of db T s f] Cons.IH[of "storeFile T s f db"]
    by (auto intro: grows_trans)
qed

lemma storeFiles_covered: "f \<in> set fs \<Longrightarrow> fileCovered T s f (fold (storeFile T s) fs db)"
proof (induction fs arbitrary: db)
  case Nil
  then show ?case by simp
next
  case (Cons a fs)
  show ?case
  proof (cases "f = a")
    case True
    show ?thesis
      using storeFile_covered[of T s a db] storeFiles_grows[of "storeFile T s a db" T s fs] True
      by (auto intro: fileCovered_grows)
  next
    case False
    with Cons show ?thesis by simp
  qed
qed

lemma storeFiles_noop:
  "\<forall>f \<in> set fs. fileCovered T s f db \<Longrightarrow> sameTables db (fold (storeFile T s) fs db)"
proof (induction fs arbitrary: db)
  case Nil
  show ?case by (simp add: sameTables_def)
next
  case (Cons a fs)
  have 1: "sameTables db (storeFile T s a db)" using Cons.prems by (simp add: storeFile_noop)
  have "\<forall>f \<in> set fs. fileCovered T s f (storeFile T s a db)"
    using Cons.prems sameTables_grows[OF 1] by (auto intro: fileCovered_grows)
  from Cons.IH[OF this] 1 show ?case by (auto intro: sameTables_trans)
qed

lemma indexFields_tables: "sameTables db (indexFields db)"
proof -
  have "sameTables db (fold (\<lambda>(fid, field_path, descr, asset_name).
        insertSearch ''asset_field'' fid (asset_name @ ''.'' @ field_path) (nullish descr [])
          ''openstarbound'') xs db)" for xs
  proof (induction xs arbitrary: db)
    case Nil
    show ?case by (simp add: sameTables_def)
  next
    case (Cons x xs)
    obtain a b c d where x: "x = (a, b, c, d)" by (cases x) auto
    show ?case using Cons.IH[of "insertSearch ''asset_field'' a (d @ ''.'' @ b) (nullish c []) ''openstarbound'' db"]
        insertSearch_tables[of db "''asset_field''" a "d @ ''.'' @ b" "nullish c []" "''openstarbound''"]
      by (auto simp: x intro: sameTables_trans)
  qed
  then show ?thesis by (simp add: indexFields_def)
qed

lemma find_append_None:
  "find P xs = None \<Longrightarrow> find P (xs @ [x]) = (if P x then Some x else None)"
  by (induction xs) (auto split: if_splits)

lemma ensureSource_grows:
  "ensureSource sd db = (sid, db1) \<Longrightarrow>
   grows db db1 \<and> asset_types db1 = asset_types db \<and> asset_fields db1 = asset_fields db"
  by (auto simp: ensureSource_def insertSource_def Let_def grows_def split: option.splits)

lemma ensureSource_found:
  "ensureSource sd db = (sid, db1) \<Longrightarrow> \<exists>r. getSource ''openstarbound'' db1 = Some r \<and> s_id r = sid"
  by (auto simp: ensureSource_def insertSource_def Let_def getSource_def find_append_None
      split: option.splits)

lemma ensureSource_stable:
  assumes "ensureSource sd db = (sid, db1)" and "grows db1 db2"
  shows "ensureSource sd' db2 = (sid, db2)"
proof -
  from ensureSource_found[OF assms(1)] obtain r where
    r: "getSource ''openstarbound'' db1 = Some r" "s_id r = sid" by blast
  have "getSource ''openstarbound'' db2 = Some r"
    using r(1) assms(2) unfolding getSource_def grows_def by (auto intro: find_prefix)
  then show ?thesis using r(2) by (simp add: ensureSource_def)
qed

lemma insertField_distinct:
  "distinct (map fieldKey (asset_fields db)) \<Longrightarrow>
   distinct (map fieldKey (asset_fields (insertField t p ty d r dv db)))"
  by (auto simp: insertField_def fieldKey_def)

lemma storeFields_distinct:
  "distinct (map fieldKey (asset_fields db)) \<Longrightarrow>
   distinct (map fieldKey (asset_fields (fold (storeField t) flds db)))"
  by (induction flds arbitrary: db) (simp_all add: storeField_def insertField_distinct)

lemma insertAssetType_fields: "asset_fields (insertAssetType s n e d b db) = asset_fields db"
  by (simp add: insertAssetType_def)

lemma storeFile_distinct:
  "distinct (map fieldKey (asset_fields db)) \<Longrightarrow>
   distinct (map fieldKey (asset_fields (storeFile T s f db)))"
  by (auto simp: storeFile_def Let_def insertAssetType_fields insertSearch_def
      intro!: storeFields_distinct split: option.splits)

lemma storeFiles_distinct:
  "distinct (map fieldKey (asset_fields db)) \<Longrightarrow>
   distinct (map fieldKey (asset_fields (fold (storeFile T s) fs db)))"
  by (induction fs arbitrary: db) (simp_all add: storeFile_distinct)

text \<open>
  Claim C6. Running the storage step a second time on the same files leaves the rows of
  \<open>asset_fields\<close> exactly as the first run left them. A run only appends to the rows
  already stored, so a stored definition of a field is kept, and it never creates a
  second row for a pair (asset type, field path).
\<close>

theorem field_storage_idempotent:
  "asset_fields (insertExtractedData T sd dbFiles (insertExtractedData T sd dbFiles db)) =
     asset_fields (insertExtractedData T sd dbFiles db)
   \<and> prefix (asset_fields db) (asset_fields (insertExtractedData T sd dbFiles db))
   \<and> (distinct (map fieldKey (asset_fields db)) \<longrightarrow>
        distinct (map fieldKey (asset_fields (insertExtractedData T sd dbFiles db))))"
proof -
  obtain sid db1 where e: "ensureSource sd db = (sid, db1)" by (cases "ensureSource sd db") auto
  let ?db2 = "fold (storeFile T sid) dbFiles db1"
  let ?db3 = "indexFields ?db2"
  have run1: "insertExtractedData T sd dbFiles db = ?db3"
    using e by (simp add: insertExtractedData_def)
  have g12: "grows db1 ?db2" by (rule storeFiles_grows)
  have s23: "sameTables ?db2 ?db3" by (rule indexFields_tables)
  have g13: "grows db1 ?db3" using g12 sameTables_grows[OF s23] by (rule grows_trans)
  have e3: "ensureSource sd ?db3 = (sid, ?db3)" using e g13 by (rule ensureSource_stable)
  have run2: "insertExtractedData T sd dbFiles ?db3 = indexFields (fold (storeFile T sid) dbFiles ?db3)"
    using e3 by (simp add: insertExtractedData_def)
  have "\<forall>f \<in> set dbFiles. fileCovered T sid f ?db3"
    using storeFiles_covered[of _ dbFiles T sid db1] sameTables_grows[OF s23]
    by (auto intro: fileCovered_grows)
  then have "sameTables ?db3 (fold (storeFile T sid) dbFiles ?db3)" by (rule storeFiles_noop)
  then have "sameTables ?db3 (indexFields (fold (storeFile T sid) dbFiles ?db3))"
    using indexFields_tables by (rule sameTables_trans)
  then have idem: "asset_fields (insertExtractedData T sd dbFiles ?db3) = asset_fields ?db3"
    unfolding run2 by (simp add: sameTables_def)
  have "grows db ?db3" using ensureSource_grows[OF e] g13 by (auto intro: grows_trans)
  then have pre: "prefix (asset_fields db) (asset_fields ?db3)" by (simp add: grows_def)
  have dist: "distinct (map fieldKey (asset_fields ?db3))" if "distinct (map fieldKey (asset_fields db))"
  proof -
    have "distinct (map fieldKey (asset_fields db1))" using that ensureSource_grows[OF e] by simp
    then have "distinct (map fieldKey (asset_fields ?db2))" by (rule storeFiles_distinct)
    then show ?thesis using s23 by (simp add: sameTables_def)
  qed
  show ?thesis unfolding run1 using idem pre dist by blast
qed

text \<open>
  The witness: an empty store, one file of a known asset type in which the name
  \<open>itemName\<close> comes twice (with two inferred types), and one file that the table does
  not know. Two rows are stored, the first definition of \<open>itemName\<close> among them, and the
  second run leaves them as they are.
\<close>

definition emptyDb :: database where
  "emptyDb = \<lparr>sources = [], asset_types = [], asset_fields = [], search_index = []\<rparr>"

definition itemTable :: "string \<rightharpoonup> asset_mapping" where
  "itemTable = [''StarItemDatabase.cpp'' \<mapsto>
     \<lparr>assetType = ''item'', extension = ''.item'', description = ''Generic items''\<rparr>]"

definition itemFiles :: "DatabaseFileInfo list" where
  "itemFiles =
     [\<lparr>fileName = ''StarItemDatabase.cpp'', DatabaseFileInfo.assetType = ''item'',
       fileExtension = ''.item'',
       fields' =
         [\<lparr>fieldName = ''itemName'', type = ''String'', defaultValue = None, optional = False,
           sourceFile = ''StarItemDatabase.cpp'', lineNumber = 12, context = ''a | b''\<rparr>,
          \<lparr>fieldName = ''price'', type = ''Int'', defaultValue = Some ''0'', optional = True,
           sourceFile = ''StarItemDatabase.cpp'', lineNumber = 140, context = ''c''\<rparr>,
          \<lparr>fieldName = ''itemName'', type = ''Json'', defaultValue = None, optional = True,
           sourceFile = ''StarItemDatabase.cpp'', lineNumber = 30, context = ''d''\<rparr>]\<rparr>,
      \<lparr>fileName = ''StarFooDatabase.cpp'', DatabaseFileInfo.assetType = ''foo'',
       fileExtension = ''unknown'',
       fields' =
         [\<lparr>fieldName = ''bar'', type = ''Bool'', defaultValue = None, optional = False,
           sourceFile = ''StarFooDatabase.cpp'', lineNumber = 7, context = ''e''\<rparr>]\<rparr>]"

lemma itemFiles_stored:
  "asset_fields (insertExtractedData itemTable ''src'' itemFiles emptyDb) =
     [\<lparr>af_id = 1, af_asset_type_id = 1, af_field_path = ''itemName'', af_type = ''String'',
       af_description = Some ''Extracted from StarItemDatabase.cpp:12. Required.'',
       af_required = Some 1, af_default_value = None, af_enum_values = None, af_examples = None\<rparr>,
      \<lparr>af_id = 2, af_asset_type_id = 1, af_field_path = ''price'', af_type = ''Int'',
       af_description = Some ''Extracted from StarItemDatabase.cpp:140. Optional. Default: 0'',
       af_required = Some 0, af_default_value = Some ''0'', af_enum_values = None,
       af_examples = None\<rparr>]"
  by (simp add: insertExtractedData_def ensureSource_def getSource_def insertSource_def emptyDb_def
      itemTable_def itemFiles_def storeFile_def insertAssetType_def getAssetType_def storeField_def
      insertField_def insertSearch_def indexFields_def allFields_def fieldDescription_def nextId_def
      trim_def isSpace_def digit_def nullish_def Let_def)

theorem field_storage_idempotent_witness:
  "distinct (map fieldKey (asset_fields emptyDb)) \<and>
   distinct (map fieldKey (asset_fields (insertExtractedData itemTable ''src'' itemFiles emptyDb))) \<and>
   map (\<lambda>r. (af_asset_type_id r, af_field_path r, af_type r))
     (asset_fields (insertExtractedData itemTable ''src'' itemFiles
        (insertExtractedData itemTable ''src'' itemFiles emptyDb))) =
     [(1, ''itemName'', ''String''), (1, ''price'', ''Int'')]"
proof -
  have d0: "distinct (map fieldKey (asset_fields emptyDb))" by (simp add: emptyDb_def)
  note idem = field_storage_idempotent[of itemTable "''src''" itemFiles emptyDb]
  from idem d0 have d1: "distinct (map fieldKey (asset_fields (insertExtractedData itemTable ''src'' itemFiles emptyDb)))"
    by blast
  from idem have "asset_fields (insertExtractedData itemTable ''src'' itemFiles
        (insertExtractedData itemTable ''src'' itemFiles emptyDb)) =
      asset_fields (insertExtractedData itemTable ''src'' itemFiles emptyDb)" by blast
  then have "map (\<lambda>r. (af_asset_type_id r, af_field_path r, af_type r))
     (asset_fields (insertExtractedData itemTable ''src'' itemFiles
        (insertExtractedData itemTable ''src'' itemFiles emptyDb))) =
     [(1, ''itemName'', ''String''), (1, ''price'', ''Int'')]"
    by (simp add: itemFiles_stored)
  with d0 d1 show ?thesis by blast
qed

end
